theory Spec2Isabelle
  imports Main "HOL-Library.Sublist" "HOL-Library.AList"
begin

section \<open>JavaScript values used by \<^verbatim>\<open>src/index.ts\<close>\<close>

text \<open>
  Strings are byte lists (the UTF-8 image of the JavaScript string). The numbers that
  reach the handlers as arguments (\<^verbatim>\<open>page\<close>, \<^verbatim>\<open>limit\<close>, \<^verbatim>\<open>scene_id\<close>) and the HTTP status
  are modelled on their integral values, as \<open>int\<close> and \<open>nat\<close>; \<^verbatim>\<open>String(n)\<close> is then the
  decimal numeral, which is what JavaScript prints for every integer up to
  \<^verbatim>\<open>Number.MAX_SAFE_INTEGER\<close>. A value is falsy when it is \<^verbatim>\<open>undefined\<close> (\<open>None\<close>), the
  empty string or the number zero.
\<close>

type_synonym jsnumber = int

definition digit_char :: "nat \<Rightarrow> char" where
  "digit_char d = ''0123456789'' ! d"

fun digits :: "nat \<Rightarrow> string" where
  "digits n = (if n < 10 then [digit_char n] else digits (n div 10) @ [digit_char (n mod 10)])"

declare digits.simps [simp del]

definition String_of_number :: "jsnumber \<Rightarrow> string" where
  "String_of_number n = (if n < 0 then CHR ''-'' # digits (nat (- n)) else digits (nat n))"

definition truthy_string :: "string option \<Rightarrow> bool" where
  "truthy_string a = (case a of None \<Rightarrow> False | Some s \<Rightarrow> s \<noteq> [])"

definition truthy_number :: "jsnumber option \<Rightarrow> bool" where
  "truthy_number a = (case a of None \<Rightarrow> False | Some n \<Rightarrow> n \<noteq> 0)"

text \<open>A thrown value: an \<^verbatim>\<open>Error\<close> instance with its message, or any other value,
  given by what \<^verbatim>\<open>String(err)\<close> makes of it.\<close>

datatype js_exn = JsError string | Thrown string

text \<open>An awaited computation either throws (\<open>Inl\<close>) or yields a value (\<open>Inr\<close>).\<close>

definition bind_exn :: "js_exn + 'a \<Rightarrow> ('a \<Rightarrow> js_exn + 'b) \<Rightarrow> js_exn + 'b" where
  "bind_exn m f = (case m of Inl e \<Rightarrow> Inl e | Inr v \<Rightarrow> f v)"

definition try_catch :: "js_exn + 'a \<Rightarrow> (js_exn \<Rightarrow> js_exn + 'a) \<Rightarrow> js_exn + 'a" where
  "try_catch body handler = (case body of Inl e \<Rightarrow> handler e | Inr v \<Rightarrow> Inr v)"

subsection \<open>JSON values and \<^verbatim>\<open>JSON.stringify\<close>\<close>

text \<open>
  A number inside a JSON value is a double. \<open>JInt n\<close> is the integer \<open>n\<close>, meant for
  \<open>\<bar>n\<bar> \<le> MAX_SAFE_INTEGER\<close>, where every integer is a double and \<^verbatim>\<open>String(n)\<close> is its
  decimal numeral. \<open>JOther s\<close> is any other finite number except \<open>-0\<close>, given by the
  numeral \<open>s\<close> that \<^verbatim>\<open>String(n)\<close> makes of it (\<^verbatim>\<open>0.5\<close>, \<^verbatim>\<open>1e+21\<close>): ECMA-262 makes that
  numeral denote the number again, and this is taken as what the numeral means, not
  proved. \<open>JNegZero\<close> is \<open>-0\<close>; then come the two infinities and \<^verbatim>\<open>NaN\<close>.
\<close>

datatype json_number = JInt int | JOther string | JNegZero | JInfinity | JNegInfinity | JNaN

definition MAX_SAFE_INTEGER :: int where
  "MAX_SAFE_INTEGER = 9007199254740991"

datatype json = JNull | JBool bool | JNumber json_number | JString string
  | JArray "json list" | JObject "(string \<times> json) list"

text \<open>\<^verbatim>\<open>Number::toString\<close>, and the numbers \<^verbatim>\<open>JSON.stringify\<close> writes as numbers.\<close>

definition Number_toString :: "json_number \<Rightarrow> string" where
  "Number_toString x =
    (case x of JInt n \<Rightarrow> String_of_number n | JOther s \<Rightarrow> s | JNegZero \<Rightarrow> ''0''
     | JInfinity \<Rightarrow> ''Infinity'' | JNegInfinity \<Rightarrow> ''-Infinity'' | JNaN \<Rightarrow> ''NaN'')"

definition is_finite :: "json_number \<Rightarrow> bool" where
  "is_finite x = (case x of JInfinity \<Rightarrow> False | JNegInfinity \<Rightarrow> False | JNaN \<Rightarrow> False
                  | _ \<Rightarrow> True)"

definition hex_lower :: "nat \<Rightarrow> char" where
  "hex_lower d = ''0123456789abcdef'' ! d"

text \<open>\<^verbatim>\<open>QuoteJSONString\<close> of ECMA-262, on bytes.\<close>

definition quote_char :: "char \<Rightarrow> string" where
  "quote_char c =
    (if c = CHR 0x08 then [CHR 0x5C, CHR ''b'']
     else if c = CHR 0x09 then [CHR 0x5C, CHR ''t'']
     else if c = CHR 0x0A then [CHR 0x5C, CHR ''n'']
     else if c = CHR 0x0C then [CHR 0x5C, CHR ''f'']
     else if c = CHR 0x0D then [CHR 0x5C, CHR ''r'']
     else if c = CHR 0x22 then [CHR 0x5C, CHR 0x22]
     else if c = CHR 0x5C then [CHR 0x5C, CHR 0x5C]
     else if (of_char c :: nat) < 32
       then [CHR 0x5C, CHR ''u'', CHR ''0'', CHR ''0'',
             hex_lower (of_char c div 16), hex_lower (of_char c mod 16)]
     else [c])"

definition QuoteJSONString :: "string \<Rightarrow> string" where
  "QuoteJSONString s = [CHR 0x22] @ concat (map quote_char s) @ [CHR 0x22]"

fun join :: "'a list \<Rightarrow> 'a list list \<Rightarrow> 'a list" where
  "join sep [] = []"
| "join sep [x] = x"
| "join sep (x # y # ys) = x @ sep @ join sep (y # ys)"

text \<open>\<^verbatim>\<open>SerializeJSONProperty\<close> with the gap string and the current indentation.\<close>

fun SerializeJSONProperty :: "string \<Rightarrow> string \<Rightarrow> json \<Rightarrow> string" where
  "SerializeJSONProperty gap indent JNull = ''null''"
| "SerializeJSONProperty gap indent (JBool b) = (if b then ''true'' else ''false'')"
| "SerializeJSONProperty gap indent (JNumber x) =
    (if is_finite x then Number_toString x else ''null'')"
| "SerializeJSONProperty gap indent (JString s) = QuoteJSONString s"
| "SerializeJSONProperty gap indent (JArray vs) =
    (let stepback = indent; indent' = indent @ gap;
         partial = map (SerializeJSONProperty gap indent') vs in
     if partial = [] then ''[]''
     else if gap = [] then ''['' @ join '','' partial @ '']''
     else ''['' @ [CHR 0x0A] @ indent' @ join ('','' @ [CHR 0x0A] @ indent') partial
            @ [CHR 0x0A] @ stepback @ '']'')"
| "SerializeJSONProperty gap indent (JObject kvs) =
    (let stepback = indent; indent' = indent @ gap;
         partial = map (\<lambda>(k, v). QuoteJSONString k @ '':'' @ (if gap \<noteq> [] then '' '' else [])
                                   @ SerializeJSONProperty gap indent' v) kvs in
     if partial = [] then ''{}''
     else if gap = [] then ''{'' @ join '','' partial @ ''}''
     else ''{'' @ [CHR 0x0A] @ indent' @ join ('','' @ [CHR 0x0A] @ indent') partial
            @ [CHR 0x0A] @ stepback @ ''}'')"

text \<open>\<^verbatim>\<open>JSON.stringify(v)\<close> and \<^verbatim>\<open>JSON.stringify(v, null, n)\<close>.\<close>

definition JSON_stringify :: "json \<Rightarrow> string" where
  "JSON_stringify v = SerializeJSONProperty [] [] v"

definition JSON_stringify_indent :: "json \<Rightarrow> nat \<Rightarrow> string" where
  "JSON_stringify_indent v n = SerializeJSONProperty (replicate (min n 10) CHR '' '') [] v"

section \<open>Configuration\<close>

text \<open>The three environment variables; \<^verbatim>\<open>a || b\<close> takes \<open>b\<close> when \<open>a\<close> is unset or empty.\<close>

record env =
  BIOPICS_AGENT :: "string option"
  BIOPICS_MODEL :: "string option"
  BIOPICS_USER_TOKEN :: "string option"

record config =
  AGENT_NAME :: string
  MODEL_NAME :: string
  USER_TOKEN :: string

definition or_else :: "string option \<Rightarrow> string \<Rightarrow> string" where
  "or_else a b = (case a of None \<Rightarrow> b | Some s \<Rightarrow> if s \<noteq> [] then s else b)"

definition load_config :: "env \<Rightarrow> config" where
  "load_config e =
    \<lparr>AGENT_NAME = or_else (BIOPICS_AGENT e) ''mcp-agent'',
     MODEL_NAME = or_else (BIOPICS_MODEL e) [],
     USER_TOKEN = or_else (BIOPICS_USER_TOKEN e) []\<rparr>"

definition API_BASE :: string where
  "API_BASE = ''https://api.biopics.ai''"

section \<open>Helpers\<close>

record content_item =
  item_type :: string
  item_text :: string

record envelope =
  content :: "content_item list"
  isError :: "bool option"

definition toolResult :: "json \<Rightarrow> envelope" where
  "toolResult data =
    \<lparr>content = [\<lparr>item_type = ''text'', item_text = JSON_stringify_indent data 2\<rparr>],
     isError = None\<rparr>"

definition toolError :: "js_exn \<Rightarrow> envelope" where
  "toolError err =
    (let msg = (case err of JsError message \<Rightarrow> message | Thrown s \<Rightarrow> s) in
     \<lparr>content = [\<lparr>item_type = ''text'', item_text = ''Error: '' @ msg\<rparr>],
      isError = Some True\<rparr>)"

section \<open>API client\<close>

text \<open>
  \<^verbatim>\<open>RequestInit\<close> as the handlers use it, the arguments \<^verbatim>\<open>fetch\<close> is called with, and the
  \<^verbatim>\<open>Response\<close> as the client reads it: its status, and what awaiting \<^verbatim>\<open>res.text()\<close> and
  \<^verbatim>\<open>res.json()\<close> gives. A header object is a map from header names to values.
\<close>

record request_init =
  init_method :: "string option"
  init_body :: "string option"
  init_headers :: "(string \<rightharpoonup> string) option"

record request =
  req_url :: string
  req_method :: "string option"
  req_body :: "string option"
  req_headers :: "string \<rightharpoonup> string"

record response =
  res_status :: nat
  res_text :: "js_exn + string"
  res_json :: "js_exn + json"

definition res_ok :: "response \<Rightarrow> bool" where
  "res_ok res = (200 \<le> res_status res \<and> res_status res \<le> 299)"

text \<open>Lines 44 to 46: the URL.\<close>

definition api_url :: "config \<Rightarrow> string \<Rightarrow> string" where
  "api_url cfg path =
    (let sep = (if CHR ''?'' \<in> set path then ''&'' else ''?'');
         agentSuffix = (if USER_TOKEN cfg \<noteq> [] then [] else sep @ ''agent='' @ AGENT_NAME cfg)
     in API_BASE @ path @ agentSuffix)"

text \<open>Lines 48 to 53: the default headers.\<close>

definition api_headers :: "config \<Rightarrow> string \<rightharpoonup> string" where
  "api_headers cfg =
    (let headers = [''Content-Type'' \<mapsto> ''application/json'', ''X-Agent-Name'' \<mapsto> AGENT_NAME cfg];
         headers = (if MODEL_NAME cfg \<noteq> [] then headers(''X-Model'' \<mapsto> MODEL_NAME cfg) else headers);
         headers = (if USER_TOKEN cfg \<noteq> []
                    then headers(''Authorization'' \<mapsto> ''Bearer '' @ USER_TOKEN cfg) else headers)
     in headers)"

text \<open>Lines 55 to 61: the options are spread first, then the merged headers replace
  theirs; the caller's headers are spread after the defaults.\<close>

definition api_request :: "config \<Rightarrow> string \<Rightarrow> request_init option \<Rightarrow> request" where
  "api_request cfg path options =
    \<lparr>req_url = api_url cfg path,
     req_method = (case options of None \<Rightarrow> None | Some opt \<Rightarrow> init_method opt),
     req_body = (case options of None \<Rightarrow> None | Some opt \<Rightarrow> init_body opt),
     req_headers = api_headers cfg ++
       (case options of None \<Rightarrow> Map.empty
        | Some opt \<Rightarrow> (case init_headers opt of None \<Rightarrow> Map.empty | Some h \<Rightarrow> h))\<rparr>"

text \<open>The remote end: what awaiting \<^verbatim>\<open>fetch\<close> gives for a request, a response or a
  rejection (a network failure).\<close>

type_synonym remote = "request \<Rightarrow> js_exn + response"

definition api :: "config \<Rightarrow> remote \<Rightarrow> string \<Rightarrow> request_init option \<Rightarrow> js_exn + json" where
  "api cfg fetch path options =
    bind_exn (fetch (api_request cfg path options)) (\<lambda>res.
      if \<not> res_ok res
      then bind_exn (res_text res) (\<lambda>body.
             Inl (JsError (''API '' @ digits (res_status res) @ '': '' @ body)))
      else res_json res)"

section \<open>Query strings\<close>

text \<open>
  A \<^verbatim>\<open>URLSearchParams\<close> object is its list of name-value pairs. \<^verbatim>\<open>set\<close> replaces the
  first pair of that name and removes the others, or appends; \<^verbatim>\<open>toString\<close> is the
  \<^verbatim>\<open>application/x-www-form-urlencoded\<close> serialiser of the URL standard.
\<close>

type_synonym URLSearchParams = "(string \<times> string) list"

fun params_set :: "string \<Rightarrow> string \<Rightarrow> URLSearchParams \<Rightarrow> URLSearchParams" where
  "params_set name v [] = [(name, v)]"
| "params_set name v ((n, w) # ps) =
    (if n = name then (name, v) # filter (\<lambda>p. fst p \<noteq> name) ps
     else (n, w) # params_set name v ps)"

definition hex_upper :: "nat \<Rightarrow> char" where
  "hex_upper d = ''0123456789ABCDEF'' ! d"

definition form_safe :: "char \<Rightarrow> bool" where
  "form_safe c =
    (c \<in> set ''*-._0123456789ABCDEFGHIJKLMNOPQRSTUVWXYZabcdefghijklmnopqrstuvwxyz'')"

definition form_encode_byte :: "char \<Rightarrow> string" where
  "form_encode_byte c =
    (if form_safe c then [c]
     else if c = CHR '' '' then ''+''
     else [CHR ''%'', hex_upper (of_char c div 16), hex_upper (of_char c mod 16)])"

definition form_encode :: "string \<Rightarrow> string" where
  "form_encode s = concat (map form_encode_byte s)"

definition params_toString :: "URLSearchParams \<Rightarrow> string" where
  "params_toString ps = join ''&'' (map (\<lambda>(n, v). form_encode n @ ''='' @ form_encode v) ps)"

section \<open>Tool arguments\<close>

text \<open>The arguments a handler receives once the SDK has checked them against the zod
  schema of the tool: an optional parameter is \<open>None\<close> when the caller left it out, an
  enum is one of its literals.\<close>

datatype priority = P_high | P_medium | P_low

fun priority_str :: "priority \<Rightarrow> string" where
  "priority_str P_high = ''high''"
| "priority_str P_medium = ''medium''"
| "priority_str P_low = ''low''"

datatype status = S_pending | S_approved | S_rejected | S_integrated | S_needs_revision

fun status_str :: "status \<Rightarrow> string" where
  "status_str S_pending = ''pending''"
| "status_str S_approved = ''approved''"
| "status_str S_rejected = ''rejected''"
| "status_str S_integrated = ''integrated''"
| "status_str S_needs_revision = ''needs-revision''"

record submit_contribution_args =
  sc_slug :: string
  sc_type :: string
  sc_content :: string
  sc_source_url :: "string option"
  sc_scene_id :: "jsnumber option"
  sc_liberty_note :: "string option"

record browse_people_args =
  bp_q :: "string option"
  bp_tag :: "string option"
  bp_page :: "jsnumber option"
  bp_limit :: "jsnumber option"

record find_needs_args =
  fn_priority :: "priority option"
  fn_tag :: "string option"
  fn_limit :: "jsnumber option"

record my_contributions_args =
  mc_status :: "status option"
  mc_type :: "string option"

section \<open>Tool handlers\<close>

text \<open>Every handler is \<^verbatim>\<open>try { return toolResult(await api(...)) } catch (err) { return
  toolError(err) }\<close>; an async function, so its own result is again a value or a throw.\<close>

definition get_assignment :: "config \<Rightarrow> remote \<Rightarrow> string \<Rightarrow> js_exn + envelope" where
  "get_assignment cfg fetch slug =
    try_catch
      (bind_exn (api cfg fetch (''/assignment/'' @ slug) None) (\<lambda>data. Inr (toolResult data)))
      (\<lambda>err. Inr (toolError err))"

text \<open>Lines 121 to 124: the body object, its keys in insertion order.\<close>

definition submit_contribution_body :: "submit_contribution_args \<Rightarrow> (string \<times> json) list" where
  "submit_contribution_body args =
    (let body = [(''type'', JString (sc_type args)), (''content'', JString (sc_content args))];
         body = (case sc_source_url args of None \<Rightarrow> body
                 | Some source_url \<Rightarrow>
                     if source_url \<noteq> [] then AList.update ''source_url'' (JString source_url) body
                     else body);
         body = (case sc_scene_id args of None \<Rightarrow> body
                 | Some scene_id \<Rightarrow>
                     if scene_id \<noteq> 0 then AList.update ''scene_id'' (JNumber (JInt scene_id)) body
                     else body);
         body = (case sc_liberty_note args of None \<Rightarrow> body
                 | Some liberty_note \<Rightarrow>
                     if liberty_note \<noteq> []
                     then AList.update ''liberty_note'' (JString liberty_note) body
                     else body)
     in body)"

definition submit_contribution_init :: "submit_contribution_args \<Rightarrow> request_init" where
  "submit_contribution_init args =
    \<lparr>init_method = Some ''POST'',
     init_body = Some (JSON_stringify (JObject (submit_contribution_body args))),
     init_headers = None\<rparr>"

definition submit_contribution ::
  "config \<Rightarrow> remote \<Rightarrow> submit_contribution_args \<Rightarrow> js_exn + envelope" where
  "submit_contribution cfg fetch args =
    try_catch
      (bind_exn (api cfg fetch (''/contribute/'' @ sc_slug args) (Some (submit_contribution_init args)))
         (\<lambda>data. Inr (toolResult data)))
      (\<lambda>err. Inr (toolError err))"

definition review_person :: "config \<Rightarrow> remote \<Rightarrow> string \<Rightarrow> js_exn + envelope" where
  "review_person cfg fetch slug =
    try_catch
      (bind_exn (api cfg fetch (''/review/'' @ slug) None) (\<lambda>data. Inr (toolResult data)))
      (\<lambda>err. Inr (toolError err))"

text \<open>Lines 168 to 172.\<close>

definition browse_people_params :: "browse_people_args \<Rightarrow> URLSearchParams" where
  "browse_people_params args =
    (let params = [];
         params = (case bp_q args of None \<Rightarrow> params
                   | Some q \<Rightarrow> if q \<noteq> [] then params_set ''q'' q params else params);
         params = (case bp_tag args of None \<Rightarrow> params
                   | Some tag \<Rightarrow> if tag \<noteq> [] then params_set ''tag'' tag params else params);
         params = (case bp_page args of None \<Rightarrow> params
                   | Some page \<Rightarrow>
                       if page \<noteq> 0 then params_set ''page'' (String_of_number page) params
                       else params);
         params = (case bp_limit args of None \<Rightarrow> params
                   | Some limit \<Rightarrow>
                       if limit \<noteq> 0 then params_set ''limit'' (String_of_number limit) params
                       else params)
     in params)"

text \<open>Lines 174 and 175.\<close>

definition browse_people_path :: "browse_people_args \<Rightarrow> string" where
  "browse_people_path args =
    (let qs = params_toString (browse_people_params args)
     in ''/people'' @ (if qs \<noteq> [] then ''?'' @ qs else []))"

definition browse_people :: "config \<Rightarrow> remote \<Rightarrow> browse_people_args \<Rightarrow> js_exn + envelope" where
  "browse_people cfg fetch args =
    try_catch
      (bind_exn (api cfg fetch (browse_people_path args) None) (\<lambda>data. Inr (toolResult data)))
      (\<lambda>err. Inr (toolError err))"

definition find_needs_params :: "find_needs_args \<Rightarrow> URLSearchParams" where
  "find_needs_params args =
    (let params = [];
         params = (case fn_priority args of None \<Rightarrow> params
                   | Some priority \<Rightarrow>
                       if priority_str priority \<noteq> []
                       then params_set ''priority'' (priority_str priority) params else params);
         params = (case fn_tag args of None \<Rightarrow> params
                   | Some tag \<Rightarrow> if tag \<noteq> [] then params_set ''tag'' tag params else params);
         params = (case fn_limit args of None \<Rightarrow> params
                   | Some limit \<Rightarrow>
                       if limit \<noteq> 0 then params_set ''limit'' (String_of_number limit) params
                       else params)
     in params)"

definition find_needs_path :: "find_needs_args \<Rightarrow> string" where
  "find_needs_path args =
    (let qs = params_toString (find_needs_params args)
     in ''/needs'' @ (if qs \<noteq> [] then ''?'' @ qs else []))"

definition find_needs :: "config \<Rightarrow> remote \<Rightarrow> find_needs_args \<Rightarrow> js_exn + envelope" where
  "find_needs cfg fetch args =
    try_catch
      (bind_exn (api cfg fetch (find_needs_path args) None) (\<lambda>data. Inr (toolResult data)))
      (\<lambda>err. Inr (toolError err))"

definition my_contributions_params :: "my_contributions_args \<Rightarrow> URLSearchParams" where
  "my_contributions_params args =
    (let params = [];
         params = (case mc_status args of None \<Rightarrow> params
                   | Some status \<Rightarrow>
                       if status_str status \<noteq> []
                       then params_set ''status'' (status_str status) params else params);
         params = (case mc_type args of None \<Rightarrow> params
                   | Some type \<Rightarrow> if type \<noteq> [] then params_set ''type'' type params else params)
     in params)"

definition my_contributions_path :: "my_contributions_args \<Rightarrow> string" where
  "my_contributions_path args =
    (let qs = params_toString (my_contributions_params args)
     in ''/contributions'' @ (if qs \<noteq> [] then ''?'' @ qs else []))"

definition my_contributions ::
  "config \<Rightarrow> remote \<Rightarrow> my_contributions_args \<Rightarrow> js_exn + envelope" where
  "my_contributions cfg fetch args =
    try_catch
      (bind_exn (api cfg fetch (my_contributions_path args) None) (\<lambda>data. Inr (toolResult data)))
      (\<lambda>err. Inr (toolError err))"

text \<open>Line 243: the number is concatenated to the string, no \<^verbatim>\<open>URLSearchParams\<close>.\<close>

definition leaderboard_path :: "jsnumber option \<Rightarrow> string" where
  "leaderboard_path limit =
    ''/leaderboard'' @
      (case limit of None \<Rightarrow> []
       | Some n \<Rightarrow> if n \<noteq> 0 then ''?limit='' @ String_of_number n else [])"

definition leaderboard :: "config \<Rightarrow> remote \<Rightarrow> jsnumber option \<Rightarrow> js_exn + envelope" where
  "leaderboard cfg fetch limit =
    try_catch
      (bind_exn (api cfg fetch (leaderboard_path limit) None) (\<lambda>data. Inr (toolResult data)))
      (\<lambda>err. Inr (toolError err))"

definition check_confidence :: "config \<Rightarrow> remote \<Rightarrow> string \<Rightarrow> js_exn + envelope" where
  "check_confidence cfg fetch slug =
    try_catch
      (bind_exn (api cfg fetch (''/confidence/'' @ slug) None) (\<lambda>data. Inr (toolResult data)))
      (\<lambda>err. Inr (toolError err))"

subsection \<open>Dispatch\<close>

text \<open>A call names a registered tool and carries its accepted arguments.\<close>

datatype tool_call =
    Get_assignment string
  | Submit_contribution submit_contribution_args
  | Review_person string
  | Browse_people browse_people_args
  | Find_needs find_needs_args
  | My_contributions my_contributions_args
  | Leaderboard "jsnumber option"
  | Check_confidence string

fun call_tool :: "config \<Rightarrow> remote \<Rightarrow> tool_call \<Rightarrow> js_exn + envelope" where
  "call_tool cfg fetch (Get_assignment slug) = get_assignment cfg fetch slug"
| "call_tool cfg fetch (Submit_contribution args) = submit_contribution cfg fetch args"
| "call_tool cfg fetch (Review_person slug) = review_person cfg fetch slug"
| "call_tool cfg fetch (Browse_people args) = browse_people cfg fetch args"
| "call_tool cfg fetch (Find_needs args) = find_needs cfg fetch args"
| "call_tool cfg fetch (My_contributions args) = my_contributions cfg fetch args"
| "call_tool cfg fetch (Leaderboard limit) = leaderboard cfg fetch limit"
| "call_tool cfg fetch (Check_confidence slug) = check_confidence cfg fetch slug"

text \<open>The path and the options each handler passes to the client.\<close>

fun tool_path :: "tool_call \<Rightarrow> string" where
  "tool_path (Get_assignment slug) = ''/assignment/'' @ slug"
| "tool_path (Submit_contribution args) = ''/contribute/'' @ sc_slug args"
| "tool_path (Review_person slug) = ''/review/'' @ slug"
| "tool_path (Browse_people args) = browse_people_path args"
| "tool_path (Find_needs args) = find_needs_path args"
| "tool_path (My_contributions args) = my_contributions_path args"
| "tool_path (Leaderboard limit) = leaderboard_path limit"
| "tool_path (Check_confidence slug) = ''/confidence/'' @ slug"

fun tool_options :: "tool_call \<Rightarrow> request_init option" where
  "tool_options (Submit_contribution args) = Some (submit_contribution_init args)"
| "tool_options _ = None"

section \<open>Tool registry\<close>

text \<open>The \<^verbatim>\<open>server.tool(name, description, schema, handler)\<close> registrations, in source
  order: each schema lists its parameters with the zod type, whether \<^verbatim>\<open>.optional()\<close> was
  applied, and the \<^verbatim>\<open>.describe(...)\<close> text when there is one.\<close>

datatype zod_type = ZString | ZNumber | ZEnum "string list"

record param =
  p_name :: string
  p_type :: zod_type
  p_optional :: bool
  p_describe :: "string option"

record tool =
  t_name :: string
  t_description :: string
  t_schema :: "param list"

definition em_dash :: string where
  "em_dash = [CHR 0xE2, CHR 0x80, CHR 0x94]"

definition tool_get_assignment :: tool where
  "tool_get_assignment =
    \<lparr>t_name = ''get_assignment'',
     t_description = ''Get your next assignment for a person's biographical documentary. Returns the current production phase, phase-specific instructions, a scene that needs work, and a template to fill. IMPORTANT: Also returns unverified facts that need source URLs '' @ em_dash @ '' verify these by submitting a fact-check with a source_url. The API is the director '' @ em_dash @ '' it tells you what to do based on production progress.'',
     t_schema =
       [\<lparr>p_name = ''slug'', p_type = ZString, p_optional = False,
         p_describe = Some ''Person slug (e.g. 'abraham-lincoln', 'elonmusk', 'fridakahlo')''\<rparr>]\<rparr>"

definition tool_submit_contribution :: tool where
  "tool_submit_contribution =
    \<lparr>t_name = ''submit_contribution'',
     t_description = ''Submit a contribution to a person's biographical documentary. The type must match the current production phase. Phase 3 dramatization types require a liberty_note. For IMAGE contributions: search the web for real photographs, submit type 'image' with source_url pointing to the photo URL, and content describing what the photo shows (year, context, appearance). We need lots of reference photos from different eras.'',
     t_schema =
       [\<lparr>p_name = ''slug'', p_type = ZString, p_optional = False, p_describe = Some ''Person slug''\<rparr>,
        \<lparr>p_name = ''type'', p_type = ZString, p_optional = False,
         p_describe = Some
           (''Contribution type. Phase 1: research, quote, work, timeline, fact-check, biography, source, image, video. '' @
            ''Phase 2: scene, story, scene-pitch, dialogue, dramatic-beat, character-note, pacing-suggestion, act-structure. '' @
            ''Phase 3: dramatization, composite-character, invented-dialogue, creative-liberty, dramatic-irony. '' @
            ''Phase 4: storyboard-prompt, camera-direction, lighting-setup, color-palette, wardrobe-note, set-description, visual-reference, shot-list. '' @
            ''Phase 5: ambient-sound, score-mood, music-cue, sound-effect, narration-cue, sonic-palette, silence-note. '' @
            ''Phase 6: transition, pacing-note, continuity-fix, title-card, cut-order, credits.'')\<rparr>,
        \<lparr>p_name = ''content'', p_type = ZString, p_optional = False,
         p_describe = Some ''The contribution content''\<rparr>,
        \<lparr>p_name = ''source_url'', p_type = ZString, p_optional = True,
         p_describe = Some ''Verification URL (recommended for research types)''\<rparr>,
        \<lparr>p_name = ''scene_id'', p_type = ZNumber, p_optional = True,
         p_describe = Some ''Scene ID when contributing to a specific scene''\<rparr>,
        \<lparr>p_name = ''liberty_note'', p_type = ZString, p_optional = True,
         p_describe = Some ''Required for phase 3 dramatization types. Explains what was changed from verified facts and why.''\<rparr>]\<rparr>"

definition tool_review_person :: tool where
  "tool_review_person =
    \<lparr>t_name = ''review_person'',
     t_description = ''Get a full phase-aware review of a person's biographical documentary. Returns all existing data (quotes, works, timelines, chapters), the current production phase with progress scores, phase-specific review instructions, and scenes needing work.'',
     t_schema =
       [\<lparr>p_name = ''slug'', p_type = ZString, p_optional = False, p_describe = Some ''Person slug''\<rparr>]\<rparr>"

definition tool_browse_people :: tool where
  "tool_browse_people =
    \<lparr>t_name = ''browse_people'',
     t_description = ''Browse or search the 1,141 biographical entries. Filter by category tag or search by name.'',
     t_schema =
       [\<lparr>p_name = ''q'', p_type = ZString, p_optional = True, p_describe = Some ''Search by name''\<rparr>,
        \<lparr>p_name = ''tag'', p_type = ZString, p_optional = True,
         p_describe = Some ''Filter by category: Sport, Music, Film, History, Science, Art, Business, Literature''\<rparr>,
        \<lparr>p_name = ''page'', p_type = ZNumber, p_optional = True,
         p_describe = Some ''Page number (default 1)''\<rparr>,
        \<lparr>p_name = ''limit'', p_type = ZNumber, p_optional = True,
         p_describe = Some ''Results per page (default 50, max 100)''\<rparr>]\<rparr>"

definition tool_find_needs :: tool where
  "tool_find_needs =
    \<lparr>t_name = ''find_needs'',
     t_description = ''Find content gaps across all people. Returns people sorted by completeness score (lowest first) with their specific needs. Use this to find the most impactful work to do.'',
     t_schema =
       [\<lparr>p_name = ''priority'', p_type = ZEnum [''high'', ''medium'', ''low''], p_optional = True,
         p_describe = Some ''high = score <30, medium = 30-60, low = 60-80''\<rparr>,
        \<lparr>p_name = ''tag'', p_type = ZString, p_optional = True,
         p_describe = Some ''Filter by category''\<rparr>,
        \<lparr>p_name = ''limit'', p_type = ZNumber, p_optional = True,
         p_describe = Some ''Results per page (default 50)''\<rparr>]\<rparr>"

definition tool_my_contributions :: tool where
  "tool_my_contributions =
    \<lparr>t_name = ''my_contributions'',
     t_description = ''List your submitted contributions and their statuses (pending, approved, rejected, integrated).'',
     t_schema =
       [\<lparr>p_name = ''status'',
         p_type = ZEnum [''pending'', ''approved'', ''rejected'', ''integrated'', ''needs-revision''],
         p_optional = True, p_describe = None\<rparr>,
        \<lparr>p_name = ''type'', p_type = ZString, p_optional = True,
         p_describe = Some ''Filter by contribution type''\<rparr>]\<rparr>"

definition tool_leaderboard :: tool where
  "tool_leaderboard =
    \<lparr>t_name = ''leaderboard'',
     t_description = ''View the top contributors ranked by approved contributions.'',
     t_schema =
       [\<lparr>p_name = ''limit'', p_type = ZNumber, p_optional = True,
         p_describe = Some ''Number of results (default 20, max 50)''\<rparr>]\<rparr>"

definition tool_check_confidence :: tool where
  "tool_check_confidence =
    \<lparr>t_name = ''check_confidence'',
     t_description = ''Check the confidence/convergence stats for a person. Shows which facts have been independently verified by multiple agents, which have verified source URLs, and which are still unverified.'',
     t_schema =
       [\<lparr>p_name = ''slug'', p_type = ZString, p_optional = False, p_describe = Some ''Person slug''\<rparr>]\<rparr>"

definition registered_tools :: "tool list" where
  "registered_tools =
    [tool_get_assignment, tool_submit_contribution, tool_review_person, tool_browse_people,
     tool_find_needs, tool_my_contributions, tool_leaderboard, tool_check_confidence]"

text \<open>A parameter as the table of the specification shows it: its name, and the set of
  literals when it is an enumeration.\<close>

type_synonym spec_param = "string \<times> string list option"

definition spec_param_of :: "param \<Rightarrow> spec_param" where
  "spec_param_of p = (p_name p, case p_type p of ZEnum literals \<Rightarrow> Some literals | _ \<Rightarrow> None)"

definition required_params :: "tool \<Rightarrow> spec_param list" where
  "required_params t = map spec_param_of (filter (\<lambda>p. \<not> p_optional p) (t_schema t))"

definition optional_params :: "tool \<Rightarrow> spec_param list" where
  "optional_params t = map spec_param_of (filter p_optional (t_schema t))"

text \<open>The table of section 4.2 of the specification, row by row: tool, method, path,
  required parameters, optional parameters, an enumeration with its values.\<close>

definition spec_table ::
  "(string \<times> string \<times> string \<times> spec_param list \<times> spec_param list) list" where
  "spec_table =
    [(''get_assignment'', ''GET'', ''/assignment/{slug}'', [(''slug'', None)], []),
     (''submit_contribution'', ''POST'', ''/contribute/{slug}'',
        [(''slug'', None), (''type'', None), (''content'', None)],
        [(''source_url'', None), (''scene_id'', None), (''liberty_note'', None)]),
     (''review_person'', ''GET'', ''/review/{slug}'', [(''slug'', None)], []),
     (''browse_people'', ''GET'', ''/people'', [],
        [(''q'', None), (''tag'', None), (''page'', None), (''limit'', None)]),
     (''find_needs'', ''GET'', ''/needs'', [],
        [(''priority'', Some [''high'', ''medium'', ''low'']), (''tag'', None), (''limit'', None)]),
     (''my_contributions'', ''GET'', ''/contributions'', [],
        [(''status'', Some [''pending'', ''approved'', ''rejected'', ''integrated'',
                           ''needs-revision'']),
         (''type'', None)]),
     (''leaderboard'', ''GET'', ''/leaderboard'', [], [(''limit'', None)]),
     (''check_confidence'', ''GET'', ''/confidence/{slug}'', [(''slug'', None)], [])]"

text \<open>The name, the type and the optionality of every parameter of a tool.\<close>

definition typed_schema :: "tool \<Rightarrow> (string \<times> zod_type \<times> bool) list" where
  "typed_schema t = map (\<lambda>p. (p_name p, p_type p, p_optional p)) (t_schema t)"

text \<open>The name under which a call is dispatched.\<close>

fun tool_of :: "tool_call \<Rightarrow> tool" where
  "tool_of (Get_assignment _) = tool_get_assignment"
| "tool_of (Submit_contribution _) = tool_submit_contribution"
| "tool_of (Review_person _) = tool_review_person"
| "tool_of (Browse_people _) = tool_browse_people"
| "tool_of (Find_needs _) = tool_find_needs"
| "tool_of (My_contributions _) = tool_my_contributions"
| "tool_of (Leaderboard _) = tool_leaderboard"
| "tool_of (Check_confidence _) = tool_check_confidence"

section \<open>Reading a URL\<close>

text \<open>
  What a receiver sees in a path or URL: the query string is what follows the first
  \<^verbatim>\<open>?\<close>, it is cut at every \<^verbatim>\<open>&\<close>, empty pieces are dropped, and the name of a parameter
  is the piece up to its first \<^verbatim>\<open>=\<close>.
\<close>

fun splitc :: "char \<Rightarrow> string \<Rightarrow> string list" where
  "splitc c [] = [[]]"
| "splitc c (x # xs) =
    (if x = c then [] # splitc c xs
     else (case splitc c xs of [] \<Rightarrow> [[x]] | w # ws \<Rightarrow> (x # w) # ws))"

definition query_string :: "string \<Rightarrow> string option" where
  "query_string url =
    (case dropWhile (\<lambda>c. c \<noteq> CHR ''?'') url of [] \<Rightarrow> None | _ # qs \<Rightarrow> Some qs)"

definition query_keys :: "string \<Rightarrow> string list" where
  "query_keys url =
    (case query_string url of None \<Rightarrow> []
     | Some qs \<Rightarrow>
         map (takeWhile (\<lambda>c. c \<noteq> CHR ''='')) (filter (\<lambda>p. p \<noteq> []) (splitc CHR ''&'' qs)))"

text \<open>The slug a call substitutes into its path, when it has one.\<close>

fun slug_of :: "tool_call \<Rightarrow> string" where
  "slug_of (Get_assignment slug) = slug"
| "slug_of (Submit_contribution args) = sc_slug args"
| "slug_of (Review_person slug) = slug"
| "slug_of (Check_confidence slug) = slug"
| "slug_of _ = []"

text \<open>\<^verbatim>\<open>fetch\<close> sends a \<^verbatim>\<open>GET\<close> when the options name no method.\<close>

definition effective_method :: "request_init option \<Rightarrow> string" where
  "effective_method options =
    (case options of None \<Rightarrow> ''GET''
     | Some opt \<Rightarrow> (case init_method opt of None \<Rightarrow> ''GET'' | Some m \<Rightarrow> m))"

text \<open>The bytes the form serialiser can put out for a name or a value.\<close>

definition form_alphabet :: string where
  "form_alphabet = ''%+*-._0123456789ABCDEFGHIJKLMNOPQRSTUVWXYZabcdefghijklmnopqrstuvwxyz''"

section \<open>Reading JSON text\<close>

text \<open>
  What a receiver of the envelope does with its text: a recursive-descent reader of JSON
  (RFC 8259) on bytes. It skips white space, reads strings with their escapes (a
  \<^verbatim>\<open>\u\<close> escape of the basic plane becomes its UTF-8 bytes), the three literals,
  arrays and objects, and numerals with their fraction and exponent. The recursion runs on
  fuel; \<open>JSON_parse\<close> gives it more than the length of the text, and answers \<open>None\<close>
  for a text it does not accept. A numeral with a fraction, an exponent or a magnitude
  beyond the safe integers is kept as it is written: that is the number itself for the
  numerals \<^verbatim>\<open>String(n)\<close> writes, which are the ones \<^verbatim>\<open>JSON.stringify\<close> puts in a text.
  What \<^verbatim>\<open>res.json()\<close> makes of a response body is part of the response, not computed by
  this reader.
\<close>

definition is_ws :: "char \<Rightarrow> bool" where
  "is_ws c = (c = CHR '' '' \<or> c = CHR 0x0A \<or> c = CHR 0x0D \<or> c = CHR 0x09)"

definition skipws :: "string \<Rightarrow> string" where
  "skipws s = dropWhile is_ws s"

definition is_digit :: "char \<Rightarrow> bool" where
  "is_digit c = (c \<in> set ''0123456789'')"

definition digit_val :: "char \<Rightarrow> nat" where
  "digit_val c = of_char c - 48"

definition nat_of_digits :: "string \<Rightarrow> nat" where
  "nat_of_digits ds = foldl (\<lambda>a c. 10 * a + digit_val c) 0 ds"

definition hex_val :: "char \<Rightarrow> nat option" where
  "hex_val c =
    (let n = of_char c :: nat in
     if 48 \<le> n \<and> n \<le> 57 then Some (n - 48)
     else if 97 \<le> n \<and> n \<le> 102 then Some (n - 87)
     else if 65 \<le> n \<and> n \<le> 70 then Some (n - 55)
     else None)"

definition utf8_encode :: "nat \<Rightarrow> string option" where
  "utf8_encode cp =
    (if cp < 0x80 then Some [char_of cp]
     else if cp < 0x800 then Some [char_of (0xC0 + cp div 64), char_of (0x80 + cp mod 64)]
     else if 0xD800 \<le> cp \<and> cp \<le> 0xDFFF then None
     else Some [char_of (0xE0 + cp div 4096), char_of (0x80 + cp div 64 mod 64),
                char_of (0x80 + cp mod 64)])"

definition unicode_escape :: "char \<Rightarrow> char \<Rightarrow> char \<Rightarrow> char \<Rightarrow> string option" where
  "unicode_escape h1 h2 h3 h4 =
    (case (hex_val h1, hex_val h2, hex_val h3, hex_val h4) of
       (Some a, Some b, Some c, Some d) \<Rightarrow> utf8_encode (((a * 16 + b) * 16 + c) * 16 + d)
     | _ \<Rightarrow> None)"

definition simple_escape :: "char \<Rightarrow> char option" where
  "simple_escape e =
    (if e = CHR 0x22 then Some (CHR 0x22)
     else if e = CHR 0x5C then Some (CHR 0x5C)
     else if e = CHR ''/'' then Some (CHR ''/'')
     else if e = CHR ''b'' then Some (CHR 0x08)
     else if e = CHR ''f'' then Some (CHR 0x0C)
     else if e = CHR ''n'' then Some (CHR 0x0A)
     else if e = CHR ''r'' then Some (CHR 0x0D)
     else if e = CHR ''t'' then Some (CHR 0x09)
     else None)"

fun parse_chars :: "string \<Rightarrow> (string \<times> string) option" where
  "parse_chars [] = None"
| "parse_chars (c # s) =
    (if c = CHR 0x22 then Some ([], s)
     else if c = CHR 0x5C then
       (case s of [] \<Rightarrow> None
        | e # s1 \<Rightarrow>
            if e = CHR ''u'' then
              (case s1 of
                 h1 # h2 # h3 # h4 # s2 \<Rightarrow>
                   (case unicode_escape h1 h2 h3 h4 of None \<Rightarrow> None
                    | Some bytes \<Rightarrow>
                        (case parse_chars s2 of None \<Rightarrow> None
                         | Some (t, r) \<Rightarrow> Some (bytes @ t, r)))
               | _ \<Rightarrow> None)
            else
              (case simple_escape e of None \<Rightarrow> None
               | Some x \<Rightarrow>
                   (case parse_chars s1 of None \<Rightarrow> None
                    | Some (t, r) \<Rightarrow> Some (x # t, r))))
     else if (of_char c :: nat) < 32 then None
     else (case parse_chars s of None \<Rightarrow> None | Some (t, r) \<Rightarrow> Some (c # t, r)))"

text \<open>A numeral: an optional minus sign, digits without a leading zero, an optional
  fraction, an optional exponent.\<close>

definition read_sign :: "string \<Rightarrow> string \<times> string" where
  "read_sign s =
    (case s of [] \<Rightarrow> ([], []) | c # r \<Rightarrow> if c = CHR ''-'' then ([c], r) else ([], s))"

definition read_digits :: "string \<Rightarrow> string \<times> string" where
  "read_digits s = (takeWhile is_digit s, dropWhile is_digit s)"

definition read_frac :: "string \<Rightarrow> (string \<times> string) option" where
  "read_frac s =
    (case s of [] \<Rightarrow> Some ([], [])
     | c # r \<Rightarrow>
         if c = CHR ''.''
         then (case read_digits r of (d, r1) \<Rightarrow> if d = [] then None else Some (c # d, r1))
         else Some ([], s))"

definition read_exp :: "string \<Rightarrow> (string \<times> string) option" where
  "read_exp s =
    (case s of [] \<Rightarrow> Some ([], [])
     | c # r \<Rightarrow>
         if c = CHR ''e'' \<or> c = CHR ''E''
         then (case (case r of [] \<Rightarrow> ([], [])
                     | x # r1 \<Rightarrow> if x = CHR ''+'' \<or> x = CHR ''-'' then ([x], r1) else ([], r)) of
                 (sg, r2) \<Rightarrow>
                   (case read_digits r2 of
                      (d, r3) \<Rightarrow> if d = [] then None else Some (c # sg @ d, r3)))
         else Some ([], s))"

text \<open>The number a numeral stands for: an integer numeral within the safe integers is
  that integer (\<^verbatim>\<open>-0\<close> is negative zero); any other numeral stands for the number it is
  the numeral of, and is kept as it is written.\<close>

definition number_of_numeral :: "string \<Rightarrow> string \<Rightarrow> string \<Rightarrow> string \<Rightarrow> json_number" where
  "number_of_numeral sg ip fp ep =
    (if fp = [] \<and> ep = [] \<and> int (nat_of_digits ip) \<le> MAX_SAFE_INTEGER
     then (if sg = [] then JInt (int (nat_of_digits ip))
           else if nat_of_digits ip = 0 then JNegZero
           else JInt (- int (nat_of_digits ip)))
     else JOther (sg @ ip @ fp @ ep))"

definition parse_number :: "string \<Rightarrow> (json \<times> string) option" where
  "parse_number s =
    (case read_sign s of
       (sg, s1) \<Rightarrow>
         (case read_digits s1 of
            (ip, s2) \<Rightarrow>
              if ip = [] \<or> (1 < length ip \<and> hd ip = CHR ''0'') then None
              else (case read_frac s2 of None \<Rightarrow> None
                    | Some (fp, s3) \<Rightarrow>
                        (case read_exp s3 of None \<Rightarrow> None
                         | Some (ep, s4) \<Rightarrow>
                             Some (JNumber (number_of_numeral sg ip fp ep), s4)))))"

fun parse_value :: "nat \<Rightarrow> string \<Rightarrow> (json \<times> string) option"
  and parse_elements :: "nat \<Rightarrow> string \<Rightarrow> (json list \<times> string) option"
  and parse_members :: "nat \<Rightarrow> string \<Rightarrow> ((string \<times> json) list \<times> string) option" where
  "parse_value 0 s = None"
| "parse_value (Suc n) s =
    (case skipws s of [] \<Rightarrow> None
     | c # r \<Rightarrow>
         if c = CHR ''{'' then
           (case skipws r of [] \<Rightarrow> None
            | d # r1 \<Rightarrow>
                if d = CHR ''}'' then Some (JObject [], r1)
                else (case parse_members n r of None \<Rightarrow> None
                      | Some (kvs, r2) \<Rightarrow> Some (JObject kvs, r2)))
         else if c = CHR ''['' then
           (case skipws r of [] \<Rightarrow> None
            | d # r1 \<Rightarrow>
                if d = CHR '']'' then Some (JArray [], r1)
                else (case parse_elements n r of None \<Rightarrow> None
                      | Some (vs, r2) \<Rightarrow> Some (JArray vs, r2)))
         else if c = CHR 0x22 then
           (case parse_chars r of None \<Rightarrow> None | Some (t, r1) \<Rightarrow> Some (JString t, r1))
         else if take 4 (c # r) = ''true'' then Some (JBool True, drop 4 (c # r))
         else if take 5 (c # r) = ''false'' then Some (JBool False, drop 5 (c # r))
         else if take 4 (c # r) = ''null'' then Some (JNull, drop 4 (c # r))
         else parse_number (c # r))"
| "parse_elements 0 s = None"
| "parse_elements (Suc n) s =
    (case parse_value n s of None \<Rightarrow> None
     | Some (v, r) \<Rightarrow>
         (case skipws r of [] \<Rightarrow> None
          | d # r1 \<Rightarrow>
              if d = CHR '','' then
                (case parse_elements n r1 of None \<Rightarrow> None
                 | Some (vs, r2) \<Rightarrow> Some (v # vs, r2))
              else if d = CHR '']'' then Some ([v], r1)
              else None))"
| "parse_members 0 s = None"
| "parse_members (Suc n) s =
    (case skipws s of [] \<Rightarrow> None
     | q # r \<Rightarrow>
         if q \<noteq> CHR 0x22 then None
         else (case parse_chars r of None \<Rightarrow> None
          | Some (k, r1) \<Rightarrow>
              (case skipws r1 of [] \<Rightarrow> None
               | c # r2 \<Rightarrow>
                   if c \<noteq> CHR '':'' then None
                   else (case parse_value n r2 of None \<Rightarrow> None
                    | Some (v, r3) \<Rightarrow>
                        (case skipws r3 of [] \<Rightarrow> None
                         | d # r4 \<Rightarrow>
                             if d = CHR '','' then
                               (case parse_members n r4 of None \<Rightarrow> None
                                | Some (kvs, r5) \<Rightarrow> Some ((k, v) # kvs, r5))
                             else if d = CHR ''}'' then Some ([(k, v)], r4)
                             else None)))))"

definition JSON_parse :: "string \<Rightarrow> json option" where
  "JSON_parse s =
    (case parse_value (Suc (length s)) s of None \<Rightarrow> None
     | Some (v, r) \<Rightarrow> if skipws r = [] then Some v else None)"

text \<open>A rest that cannot prolong a numeral.\<close>

definition is_numeral_char :: "char \<Rightarrow> bool" where
  "is_numeral_char c = (c \<in> set ''0123456789+-.eE'')"

definition numeral_end :: "string \<Rightarrow> bool" where
  "numeral_end rest = (case rest of [] \<Rightarrow> True | c # _ \<Rightarrow> \<not> is_numeral_char c)"

text \<open>
  The JSON values whose numbers are all finite and not \<open>-0\<close>: a \<open>JInt\<close> within the safe
  integers, or a \<open>JOther\<close> whose numeral is one, that is, read whole by the reader and
  as the number it stands for.
\<close>

definition numeral_ok :: "string \<Rightarrow> bool" where
  "numeral_ok s = (parse_number s = Some (JNumber (JOther s), []))"

definition number_ok :: "json_number \<Rightarrow> bool" where
  "number_ok x =
    (case x of JInt n \<Rightarrow> - MAX_SAFE_INTEGER \<le> n \<and> n \<le> MAX_SAFE_INTEGER
     | JOther s \<Rightarrow> numeral_ok s | _ \<Rightarrow> False)"

fun json_finite :: "json \<Rightarrow> bool" where
  "json_finite JNull = True"
| "json_finite (JBool b) = True"
| "json_finite (JNumber x) = number_ok x"
| "json_finite (JString s) = True"
| "json_finite (JArray vs) = list_all json_finite vs"
| "json_finite (JObject kvs) = list_all (\<lambda>kv. json_finite (snd kv)) kvs"

section \<open>The dispatch boundary\<close>

lemma call_tool_unfold:
  "call_tool cfg fetch call =
    (case api cfg fetch (tool_path call) (tool_options call) of
       Inl err \<Rightarrow> Inr (toolError err)
     | Inr data \<Rightarrow> Inr (toolResult data))"
  by (cases call)
     (simp_all add: get_assignment_def submit_contribution_def review_person_def
        browse_people_def find_needs_def my_contributions_def leaderboard_def
        check_confidence_def try_catch_def bind_exn_def split: sum.splits)


section \<open>Remote errors\<close>

lemma api_not_ok:
  assumes "fetch (api_request cfg path options) = Inr res" "\<not> res_ok res" "res_text res = Inr B"
  shows "api cfg fetch path options = Inl (JsError (''API '' @ digits (res_status res) @ '': '' @ B))"
  using assms by (simp add: api_def bind_exn_def)

lemma digits_404: "digits 404 = ''404''"
  by (simp add: digits.simps digit_char_def)

text \<open>
  Claim C2. For every tool, when the remote end answers the request with a status outside
  200..299 and the body text \<open>B\<close>, the handler returns the error envelope whose message is
  \<^verbatim>\<open>Error: API <status>: <B>\<close>; the decimal status and \<open>B\<close> both occur in it.
\<close>

theorem non_2xx_gives_error_envelope:
  assumes "fetch (api_request cfg (tool_path call) (tool_options call)) = Inr res"
    and "\<not> (200 \<le> res_status res \<and> res_status res \<le> 299)"
    and "res_text res = Inr B"
  shows "\<exists>msg. call_tool cfg fetch call =
             Inr \<lparr>content = [\<lparr>item_type = ''text'', item_text = msg\<rparr>], isError = Some True\<rparr>
           \<and> msg = ''Error: API '' @ digits (res_status res) @ '': '' @ B
           \<and> sublist (digits (res_status res)) msg \<and> sublist B msg"
proof -
  let ?msg = "''Error: API '' @ digits (res_status res) @ '': '' @ B"
  have a: "api cfg fetch (tool_path call) (tool_options call)
        = Inl (JsError (''API '' @ digits (res_status res) @ '': '' @ B))"
    using assms by (intro api_not_ok) (simp_all add: res_ok_def)
  have c: "call_tool cfg fetch call =
      Inr \<lparr>content = [\<lparr>item_type = ''text'', item_text = ?msg\<rparr>], isError = Some True\<rparr>"
    by (simp add: call_tool_unfold a toolError_def)
  have s1: "sublist (digits (res_status res)) ?msg"
    unfolding sublist_def by (rule exI [of _ "''Error: API ''"], rule exI [of _ "'': '' @ B"]) simp
  have s2: "sublist B ?msg"
    unfolding sublist_def
    by (rule exI [of _ "''Error: API '' @ digits (res_status res) @ '': ''"], rule exI [of _ "[]"]) simp
  from c s1 s2 show ?thesis by blast
qed

theorem non_2xx_gives_error_envelope_witness:
  "\<exists>msg. call_tool \<lparr>AGENT_NAME = ''mcp-agent'', MODEL_NAME = [], USER_TOKEN = []\<rparr>
       (\<lambda>r. Inr \<lparr>res_status = 404, res_text = Inr ''not found'',
                 res_json = Inl (JsError ''Unexpected token'')\<rparr>)
       (Leaderboard None) =
         Inr \<lparr>content = [\<lparr>item_type = ''text'', item_text = msg\<rparr>], isError = Some True\<rparr>
       \<and> msg = ''Error: API 404: not found''
       \<and> sublist ''404'' msg \<and> sublist ''not found'' msg"
  using non_2xx_gives_error_envelope
    [of "\<lambda>r. Inr \<lparr>res_status = 404, res_text = Inr ''not found'',
                  res_json = Inl (JsError ''Unexpected token'')\<rparr>"
      "\<lparr>AGENT_NAME = ''mcp-agent'', MODEL_NAME = [], USER_TOKEN = []\<rparr>" "Leaderboard None"
      "\<lparr>res_status = 404, res_text = Inr ''not found'',
        res_json = Inl (JsError ''Unexpected token'')\<rparr>" "''not found''"]
  by (simp add: digits_404)

section \<open>The registry\<close>

lemmas tool_defs = tool_get_assignment_def tool_submit_contribution_def tool_review_person_def
  tool_browse_people_def tool_find_needs_def tool_my_contributions_def tool_leaderboard_def
  tool_check_confidence_def

lemma tool_names:
  "map t_name registered_tools =
      [''get_assignment'', ''submit_contribution'', ''review_person'', ''browse_people'',
       ''find_needs'', ''my_contributions'', ''leaderboard'', ''check_confidence'']"
  by (simp add: registered_tools_def tool_defs)

lemma tool_types:
  "map typed_schema registered_tools =
      [[(''slug'', ZString, False)],
       [(''slug'', ZString, False), (''type'', ZString, False), (''content'', ZString, False),
        (''source_url'', ZString, True), (''scene_id'', ZNumber, True),
        (''liberty_note'', ZString, True)],
       [(''slug'', ZString, False)],
       [(''q'', ZString, True), (''tag'', ZString, True), (''page'', ZNumber, True),
        (''limit'', ZNumber, True)],
       [(''priority'', ZEnum [''high'', ''medium'', ''low''], True), (''tag'', ZString, True),
        (''limit'', ZNumber, True)],
       [(''status'', ZEnum [''pending'', ''approved'', ''rejected'', ''integrated'',
                           ''needs-revision''], True),
        (''type'', ZString, True)],
       [(''limit'', ZNumber, True)],
       [(''slug'', ZString, False)]]"
  by (simp add: registered_tools_def tool_defs typed_schema_def)

lemma tool_params:
  "map (\<lambda>t. (t_name t, required_params t, optional_params t)) registered_tools
     = map (\<lambda>(n, m, p, r, opt). (n, r, opt)) spec_table"
  by (simp add: registered_tools_def tool_defs spec_table_def required_params_def
        optional_params_def spec_param_of_def)

lemma tool_descriptions: "[] \<notin> set (map t_description registered_tools)"
  by (simp add: registered_tools_def tool_defs em_dash_def)

lemma tool_of_row:
  "\<exists>p. map_of spec_table (t_name (tool_of call))
         = Some (effective_method (tool_options call), p,
                 required_params (tool_of call), optional_params (tool_of call))
       \<and> prefix (takeWhile (\<lambda>c. c \<noteq> CHR ''{'') p) (tool_path call)"
  by (cases call)
    (simp_all add: tool_defs spec_table_def required_params_def optional_params_def
      spec_param_of_def effective_method_def submit_contribution_init_def
      browse_people_path_def find_needs_path_def my_contributions_path_def
      leaderboard_path_def Let_def)

text \<open>Claim C8, as stated: the registry has nine tools. It has not.\<close>

theorem registry_not_nine: "length registered_tools \<noteq> 9"
  by (simp add: registered_tools_def)

text \<open>
  Claim C8, amended. The registry declares exactly eight tools, under eight different
  names, each with a description that is not empty and a typed parameter schema: every
  parameter is a string, a number or an enumeration of strings, as listed, and the
  required parameters, the optional parameters and the values of each enumeration are
  those of the tool's row in the table of the specification (which has eight rows).
  Every call is dispatched to a registered tool, with the method of its row and a path
  that starts with the fixed part of the row's path.
\<close>

theorem registry_has_eight_tools:
  "length registered_tools = 8
   \<and> map t_name registered_tools =
      [''get_assignment'', ''submit_contribution'', ''review_person'', ''browse_people'',
       ''find_needs'', ''my_contributions'', ''leaderboard'', ''check_confidence'']
   \<and> distinct (map t_name registered_tools)
   \<and> [] \<notin> set (map t_description registered_tools)
   \<and> map typed_schema registered_tools =
      [[(''slug'', ZString, False)],
       [(''slug'', ZString, False), (''type'', ZString, False), (''content'', ZString, False),
        (''source_url'', ZString, True), (''scene_id'', ZNumber, True),
        (''liberty_note'', ZString, True)],
       [(''slug'', ZString, False)],
       [(''q'', ZString, True), (''tag'', ZString, True), (''page'', ZNumber, True),
        (''limit'', ZNumber, True)],
       [(''priority'', ZEnum [''high'', ''medium'', ''low''], True), (''tag'', ZString, True),
        (''limit'', ZNumber, True)],
       [(''status'', ZEnum [''pending'', ''approved'', ''rejected'', ''integrated'',
                           ''needs-revision''], True),
        (''type'', ZString, True)],
       [(''limit'', ZNumber, True)],
       [(''slug'', ZString, False)]]
   \<and> map (\<lambda>t. (t_name t, required_params t, optional_params t)) registered_tools
       = map (\<lambda>(n, m, p, r, opt). (n, r, opt)) spec_table
   \<and> tool_of call \<in> set registered_tools
   \<and> (\<exists>p. map_of spec_table (t_name (tool_of call))
         = Some (effective_method (tool_options call), p,
                 required_params (tool_of call), optional_params (tool_of call))
       \<and> prefix (takeWhile (\<lambda>c. c \<noteq> CHR ''{'') p) (tool_path call))"
proof -
  have 1: "length registered_tools = 8" by (simp add: registered_tools_def)
  have 2: "distinct (map t_name registered_tools)" by (simp add: tool_names)
  have 3: "tool_of call \<in> set registered_tools"
    by (cases call) (simp_all add: registered_tools_def)
  show ?thesis
    using 1 2 3 tool_names tool_types tool_params tool_descriptions tool_of_row by blast
qed

section \<open>Request headers\<close>

text \<open>
  Claim C9. The headers of a request are the defaults overridden by the caller's. Among
  the defaults, \<^verbatim>\<open>X-Agent-Name\<close> is the agent name, \<^verbatim>\<open>X-Model\<close> is there exactly when the
  model name is not empty and is then the model name, \<^verbatim>\<open>Authorization\<close> is there exactly
  when the token is not empty and is then \<^verbatim>\<open>Bearer <token>\<close>. No handler passes headers
  of its own, so every tool request carries exactly the defaults; where a caller does
  pass headers, each of them wins over the default of the same name.
\<close>

theorem request_headers:
  "req_headers (api_request cfg path options)
      = api_headers cfg ++ (case options of None \<Rightarrow> Map.empty
        | Some opt \<Rightarrow> (case init_headers opt of None \<Rightarrow> Map.empty | Some h \<Rightarrow> h))
   \<and> api_headers cfg ''X-Agent-Name'' = Some (AGENT_NAME cfg)
   \<and> api_headers cfg ''X-Model'' = (if MODEL_NAME cfg \<noteq> [] then Some (MODEL_NAME cfg) else None)
   \<and> api_headers cfg ''Authorization''
        = (if USER_TOKEN cfg \<noteq> [] then Some (''Bearer '' @ USER_TOKEN cfg) else None)
   \<and> req_headers (api_request cfg (tool_path call) (tool_options call)) = api_headers cfg
   \<and> req_headers (api_request cfg path (Some (opt\<lparr>init_headers := Some h\<rparr>))) k
        = (case h k of Some v \<Rightarrow> Some v | None \<Rightarrow> api_headers cfg k)"
proof -
  have a: "req_headers (api_request cfg (tool_path call) (tool_options call)) = api_headers cfg"
    by (cases call) (simp_all add: api_request_def submit_contribution_init_def)
  have b: "req_headers (api_request cfg path (Some (opt\<lparr>init_headers := Some h\<rparr>))) k
          = (case h k of Some v \<Rightarrow> Some v | None \<Rightarrow> api_headers cfg k)"
    by (simp add: api_request_def map_add_def)
  show ?thesis using a b by (simp add: api_request_def api_headers_def Let_def)
qed

section \<open>What the serialisers can put out\<close>

lemma digit_char_in: "d < 10 \<Longrightarrow> digit_char d \<in> set ''0123456789''"
  unfolding digit_char_def by (rule nth_mem) simp

lemma set_digits: "set (digits n) \<subseteq> set ''0123456789''"
proof (induction n rule: digits.induct)
  case (1 n)
  show ?case
  proof (cases "n < 10")
    case True
    then show ?thesis using digit_char_in [of n] by (subst digits.simps) simp
  next
    case False
    have "n mod 10 < 10" by simp
    then have "digit_char (n mod 10) \<in> set ''0123456789''" by (rule digit_char_in)
    with False 1 show ?thesis by (subst digits.simps) simp
  qed
qed

lemma digits_nonempty: "digits n \<noteq> []"
  by (subst digits.simps) simp

lemma digits_sub: "\<forall>c \<in> set ''0123456789''. c \<in> set form_alphabet"
  by code_simp

lemma set_String_of_number: "set (String_of_number n) \<subseteq> set form_alphabet"
proof -
  have m: "CHR ''-'' \<in> set form_alphabet" by code_simp
  have d: "set (digits k) \<subseteq> set form_alphabet" for k
    using set_digits [of k] digits_sub by blast
  show ?thesis using m d by (simp add: String_of_number_def)
qed

lemma String_of_number_nonempty: "String_of_number n \<noteq> []"
  by (simp add: String_of_number_def digits_nonempty)

lemma hex_upper_in: "d < 16 \<Longrightarrow> hex_upper d \<in> set ''0123456789ABCDEF''"
  unfolding hex_upper_def by (rule nth_mem) simp

lemma of_char_div_16: "(of_char c :: nat) div 16 < 16"
proof -
  have "(of_char c :: nat) < 16 * 16" using nat_of_char_less_256 [of c] by simp
  then show ?thesis by (rule less_mult_imp_div_less)
qed

lemma safe_sub: "\<forall>c \<in> set ''*-._0123456789ABCDEFGHIJKLMNOPQRSTUVWXYZabcdefghijklmnopqrstuvwxyz''. c \<in> set form_alphabet"
  by code_simp

lemma hex_sub: "\<forall>c \<in> set ''0123456789ABCDEF''. c \<in> set form_alphabet"
  by code_simp

lemma set_form_encode_byte: "set (form_encode_byte c) \<subseteq> set form_alphabet"
proof (cases "form_safe c")
  case True
  then have "c \<in> set form_alphabet" using safe_sub unfolding form_safe_def by blast
  with True show ?thesis by (simp add: form_encode_byte_def)
next
  case False
  have h1: "hex_upper (of_char c div 16) \<in> set form_alphabet"
    using hex_upper_in [OF of_char_div_16] hex_sub by blast
  have "(of_char c :: nat) mod 16 < 16" by simp
  then have h2: "hex_upper (of_char c mod 16) \<in> set form_alphabet"
    using hex_upper_in hex_sub by blast
  have p: "CHR ''%'' \<in> set form_alphabet" "CHR ''+'' \<in> set form_alphabet"
    by code_simp+
  from False h1 h2 p show ?thesis by (simp add: form_encode_byte_def)
qed

lemma set_form_encode: "set (form_encode s) \<subseteq> set form_alphabet"
  using set_form_encode_byte by (auto simp add: form_encode_def)

lemma form_alphabet_reserved:
  "CHR ''&'' \<notin> set form_alphabet" "CHR ''='' \<notin> set form_alphabet" "CHR ''?'' \<notin> set form_alphabet"
  by code_simp+

section \<open>Cutting a query string\<close>

lemma splitc_nonempty: "splitc c s \<noteq> []"
  by (induction s) (auto split: list.splits)

lemma splitc_Cons_neq:
  "x \<noteq> c \<Longrightarrow> splitc c (x # xs) = (x # hd (splitc c xs)) # tl (splitc c xs)"
  using splitc_nonempty [of c xs] by (cases "splitc c xs") simp_all

lemma splitc_none: "c \<notin> set a \<Longrightarrow> splitc c a = [a]"
  by (induction a) (auto split: list.splits)

lemma splitc_append: "splitc c (a @ c # b) = splitc c a @ splitc c b"
proof (induction a)
  case Nil
  then show ?case by simp
next
  case (Cons x a)
  then show ?case using splitc_nonempty [of c a]
    by (cases "splitc c a") auto
qed

lemma hd_splitc: "hd (splitc c s) = takeWhile (\<lambda>x. x \<noteq> c) s"
  by (induction s) (auto split: list.splits simp add: splitc_nonempty)

lemma takeWhile_stop: "c \<notin> set a \<Longrightarrow> takeWhile (\<lambda>x. x \<noteq> c) (a @ c # b) = a"
  by (induction a) auto

lemma takeWhile_none: "c \<notin> set a \<Longrightarrow> takeWhile (\<lambda>x. x \<noteq> c) a = a"
  by (induction a) auto

lemma splitc_join:
  "ps \<noteq> [] \<Longrightarrow> (\<And>p. p \<in> set ps \<Longrightarrow> c \<notin> set p) \<Longrightarrow> splitc c (join [c] ps) = ps"
proof (induction "[c]" ps rule: join.induct)
  case 1
  then show ?case by simp
next
  case (2 x)
  then show ?case by (simp add: splitc_none)
next
  case (3 x y ys)
  have "c \<notin> set x" using 3 by simp
  moreover have "splitc c (join [c] (y # ys)) = y # ys" using 3 by simp
  ultimately show ?case using splitc_append [of c x "join [c] (y # ys)"]
    by (simp add: splitc_none)
qed

lemma set_join: "set (join sep xs) \<subseteq> set sep \<union> \<Union> (set ` set xs)"
  by (induction sep xs rule: join.induct) auto

lemma join_nonempty: "x \<noteq> [] \<Longrightarrow> join sep (x # xs) \<noteq> []"
  by (cases xs) simp_all

lemma query_string_none: "CHR ''?'' \<notin> set s \<Longrightarrow> query_string s = None"
proof -
  assume "CHR ''?'' \<notin> set s"
  then have d: "dropWhile (\<lambda>c. c \<noteq> CHR ''?'') s = []" by (induction s) auto
  show ?thesis unfolding query_string_def d by simp
qed

lemma query_string_first:
  "CHR ''?'' \<notin> set base \<Longrightarrow> query_string (base @ CHR ''?'' # qs) = Some qs"
proof -
  assume "CHR ''?'' \<notin> set base"
  then have "dropWhile (\<lambda>c. c \<noteq> CHR ''?'') (base @ CHR ''?'' # qs) = CHR ''?'' # qs"
    by (induction base) auto
  then show ?thesis by (simp add: query_string_def)
qed

lemma query_string_split:
  "CHR ''?'' \<in> set s \<Longrightarrow> \<exists>base qs. s = base @ CHR ''?'' # qs \<and> CHR ''?'' \<notin> set base"
  by (metis split_list_first)


lemma piece_no_amp: "CHR ''&'' \<notin> set (form_encode n @ ''='' @ form_encode v)"
  using set_form_encode [of n] set_form_encode [of v] form_alphabet_reserved by auto

lemma piece_key: "takeWhile (\<lambda>c. c \<noteq> CHR ''='') (form_encode n @ ''='' @ form_encode v) = form_encode n"
proof -
  have "CHR ''='' \<notin> set (form_encode n)"
    using set_form_encode [of n] form_alphabet_reserved by auto
  then show ?thesis using takeWhile_stop [of "CHR ''=''" "form_encode n" "form_encode v"] by simp
qed

lemma params_toString_empty: "(params_toString ps = []) = (ps = [])"
proof (cases ps)
  case Nil
  then show ?thesis by (simp add: params_toString_def)
next
  case (Cons p ps')
  obtain n v where "p = (n, v)" by (cases p)
  with Cons show ?thesis by (simp add: params_toString_def join_nonempty)
qed

lemma set_params_toString: "CHR ''?'' \<notin> set (params_toString ps)"
proof -
  have "\<And>p. p \<in> set ps \<Longrightarrow> CHR ''?'' \<notin> set (case p of (n, v) \<Rightarrow> form_encode n @ ''='' @ form_encode v)"
    using set_form_encode form_alphabet_reserved by (auto split: prod.splits)
  then show ?thesis using set_join [of "''&''" "map (\<lambda>(n, v). form_encode n @ ''='' @ form_encode v) ps"]
    unfolding params_toString_def by auto
qed

lemma query_keys_params:
  assumes "CHR ''?'' \<notin> set base"
  shows "query_keys (base @ (if params_toString ps \<noteq> [] then ''?'' @ params_toString ps else []))
          = map (\<lambda>p. form_encode (fst p)) ps"
proof (cases "ps = []")
  case True
  then show ?thesis using assms
    by (simp add: params_toString_def query_keys_def query_string_none)
next
  case False
  let ?pieces = "map (\<lambda>(n, v). form_encode n @ ''='' @ form_encode v) ps"
  have ne: "?pieces \<noteq> []" using False by simp
  have amp: "\<And>p. p \<in> set ?pieces \<Longrightarrow> CHR ''&'' \<notin> set p"
    using piece_no_amp by auto
  have sp: "splitc CHR ''&'' (params_toString ps) = ?pieces"
    unfolding params_toString_def using splitc_join [OF ne amp] by simp
  have nonempty: "filter (\<lambda>p. p \<noteq> []) ?pieces = ?pieces"
    by (induction ps) (auto)
  have keys: "map (takeWhile (\<lambda>c. c \<noteq> CHR ''='')) ?pieces = map (\<lambda>p. form_encode (fst p)) ps"
    using piece_key by (induction ps) (auto)
  have qs: "query_string (base @ CHR ''?'' # params_toString ps) = Some (params_toString ps)"
    using assms by (rule query_string_first)
  show ?thesis using False qs sp nonempty keys
    by (simp add: params_toString_empty query_keys_def)
qed

section \<open>The query keys of the handlers' paths\<close>

lemma form_encode_names:
  "form_encode ''q'' = ''q''" "form_encode ''tag'' = ''tag''" "form_encode ''page'' = ''page''"
  "form_encode ''limit'' = ''limit''" "form_encode ''priority'' = ''priority''"
  "form_encode ''status'' = ''status''" "form_encode ''type'' = ''type''"
  by code_simp+

lemma browse_people_names:
  "map fst (browse_people_params args) =
      (if truthy_string (bp_q args) then [''q''] else [])
    @ (if truthy_string (bp_tag args) then [''tag''] else [])
    @ (if truthy_number (bp_page args) then [''page''] else [])
    @ (if truthy_number (bp_limit args) then [''limit''] else [])"
  by (auto simp add: browse_people_params_def Let_def truthy_string_def truthy_number_def
       split: option.splits)

lemma priority_str_nonempty: "priority_str p \<noteq> []"
  by (cases p) simp_all

lemma status_str_nonempty: "status_str s \<noteq> []"
  by (cases s) simp_all

lemma find_needs_names:
  "map fst (find_needs_params args) =
      (if fn_priority args \<noteq> None then [''priority''] else [])
    @ (if truthy_string (fn_tag args) then [''tag''] else [])
    @ (if truthy_number (fn_limit args) then [''limit''] else [])"
  by (auto simp add: find_needs_params_def Let_def truthy_string_def truthy_number_def
        priority_str_nonempty split: option.splits)

lemma my_contributions_names:
  "map fst (my_contributions_params args) =
      (if mc_status args \<noteq> None then [''status''] else [])
    @ (if truthy_string (mc_type args) then [''type''] else [])"
  by (auto simp add: my_contributions_params_def Let_def truthy_string_def
        status_str_nonempty split: option.splits)

lemma keys_as_names: "map (\<lambda>p. form_encode (fst p)) ps = map form_encode (map fst ps)"
  by simp

lemma browse_people_keys:
  "query_keys (browse_people_path args) =
      (if truthy_string (bp_q args) then [''q''] else [])
    @ (if truthy_string (bp_tag args) then [''tag''] else [])
    @ (if truthy_number (bp_page args) then [''page''] else [])
    @ (if truthy_number (bp_limit args) then [''limit''] else [])"
proof -
  have "CHR ''?'' \<notin> set ''/people''" by simp
  then have "query_keys (browse_people_path args)
      = map form_encode (map fst (browse_people_params args))"
    unfolding browse_people_path_def Let_def keys_as_names [symmetric]
    by (rule query_keys_params)
  then show ?thesis by (simp add: browse_people_names form_encode_names)
qed

lemma find_needs_keys:
  "query_keys (find_needs_path args) =
      (if fn_priority args \<noteq> None then [''priority''] else [])
    @ (if truthy_string (fn_tag args) then [''tag''] else [])
    @ (if truthy_number (fn_limit args) then [''limit''] else [])"
proof -
  have "CHR ''?'' \<notin> set ''/needs''" by simp
  then have "query_keys (find_needs_path args)
      = map form_encode (map fst (find_needs_params args))"
    unfolding find_needs_path_def Let_def keys_as_names [symmetric]
    by (rule query_keys_params)
  then show ?thesis by (simp add: find_needs_names form_encode_names)
qed

lemma my_contributions_keys:
  "query_keys (my_contributions_path args) =
      (if mc_status args \<noteq> None then [''status''] else [])
    @ (if truthy_string (mc_type args) then [''type''] else [])"
proof -
  have "CHR ''?'' \<notin> set ''/contributions''" by simp
  then have "query_keys (my_contributions_path args)
      = map form_encode (map fst (my_contributions_params args))"
    unfolding my_contributions_path_def Let_def keys_as_names [symmetric]
    by (rule query_keys_params)
  then show ?thesis by (simp add: my_contributions_names form_encode_names)
qed

lemma number_no_reserved:
  "CHR ''&'' \<notin> set (String_of_number n)" "CHR ''?'' \<notin> set (String_of_number n)"
  using set_String_of_number [of n] form_alphabet_reserved by auto

lemma leaderboard_keys:
  "query_keys (leaderboard_path limit) = (if truthy_number limit then [''limit''] else [])"
proof (cases "truthy_number limit")
  case False
  then have "leaderboard_path limit = ''/leaderboard''"
    by (auto simp add: leaderboard_path_def truthy_number_def split: option.splits)
  then show ?thesis using False by (simp add: query_keys_def query_string_def)
next
  case True
  then obtain n where n: "limit = Some n" "n \<noteq> 0"
    by (auto simp add: truthy_number_def split: option.splits)
  define piece where "piece = ''limit='' @ String_of_number n"
  have p: "leaderboard_path limit = ''/leaderboard'' @ CHR ''?'' # piece"
    using n by (simp add: leaderboard_path_def piece_def)
  have "CHR ''?'' \<notin> set ''/leaderboard''" by simp
  then have qs: "query_string (leaderboard_path limit) = Some piece"
    unfolding p by (rule query_string_first)
  have "CHR ''&'' \<notin> set piece"
    using number_no_reserved by (simp add: piece_def)
  then have sp: "splitc CHR ''&'' piece = [piece]"
    by (rule splitc_none)
  have k: "piece \<noteq> []" "takeWhile (\<lambda>c. c \<noteq> CHR ''='') piece = ''limit''"
    by (simp_all add: piece_def)
  show ?thesis using True k by (simp add: query_keys_def qs sp)
qed

text \<open>Claim C5, as stated: a query key is in the path if and only if its argument was
  supplied. \<^verbatim>\<open>browse_people\<close> called with \<^verbatim>\<open>page: 0\<close> has the argument and not the key.\<close>

theorem supplied_zero_page_is_not_sent:
  "bp_page \<lparr>bp_q = None, bp_tag = None, bp_page = Some 0, bp_limit = None\<rparr> \<noteq> None
   \<and> browse_people_path \<lparr>bp_q = None, bp_tag = None, bp_page = Some 0, bp_limit = None\<rparr> = ''/people''
   \<and> ''page'' \<notin> set (query_keys (browse_people_path
        \<lparr>bp_q = None, bp_tag = None, bp_page = Some 0, bp_limit = None\<rparr>))"
  by (simp add: browse_people_path_def browse_people_params_def params_toString_def
        query_keys_def query_string_def)

text \<open>
  Claim C5, amended. For \<^verbatim>\<open>browse_people\<close>, \<^verbatim>\<open>find_needs\<close>, \<^verbatim>\<open>my_contributions\<close> and
  \<^verbatim>\<open>leaderboard\<close>, the query keys of the path the handler builds are, in source order,
  the keys of the optional arguments that were supplied with a truthy value: a string
  that is not empty, a number that is not zero, any enum literal. An argument left out
  is never sent. \<^verbatim>\<open>browse_people\<close> with no argument builds \<^verbatim>\<open>/people\<close>, and with the tag
  \<^verbatim>\<open>Music\<close> builds \<^verbatim>\<open>/people?tag=Music\<close>.
\<close>

theorem query_keys_are_the_truthy_arguments:
  "query_keys (browse_people_path bp) =
      (if truthy_string (bp_q bp) then [''q''] else [])
    @ (if truthy_string (bp_tag bp) then [''tag''] else [])
    @ (if truthy_number (bp_page bp) then [''page''] else [])
    @ (if truthy_number (bp_limit bp) then [''limit''] else [])
   \<and> query_keys (find_needs_path fn) =
      (if fn_priority fn \<noteq> None then [''priority''] else [])
    @ (if truthy_string (fn_tag fn) then [''tag''] else [])
    @ (if truthy_number (fn_limit fn) then [''limit''] else [])
   \<and> query_keys (my_contributions_path mc) =
      (if mc_status mc \<noteq> None then [''status''] else [])
    @ (if truthy_string (mc_type mc) then [''type''] else [])
   \<and> query_keys (leaderboard_path limit) = (if truthy_number limit then [''limit''] else [])
   \<and> browse_people_path \<lparr>bp_q = None, bp_tag = None, bp_page = None, bp_limit = None\<rparr>
       = ''/people''
   \<and> browse_people_path \<lparr>bp_q = None, bp_tag = Some ''Music'', bp_page = None, bp_limit = None\<rparr>
       = ''/people?tag=Music''"
proof -
  have e: "browse_people_path \<lparr>bp_q = None, bp_tag = None, bp_page = None, bp_limit = None\<rparr>
       = ''/people''"
    "browse_people_path \<lparr>bp_q = None, bp_tag = Some ''Music'', bp_page = None, bp_limit = None\<rparr>
       = ''/people?tag=Music''"
    by (simp_all add: browse_people_path_def browse_people_params_def params_toString_def
        form_encode_def form_encode_byte_def form_safe_def)
  show ?thesis
    using browse_people_keys [of bp] find_needs_keys [of fn] my_contributions_keys [of mc]
      leaderboard_keys [of limit] e
    by blast
qed

section \<open>The agent parameter and the separator\<close>

lemma api_url_token: "USER_TOKEN cfg \<noteq> [] \<Longrightarrow> api_url cfg path = API_BASE @ path"
  by (simp add: api_url_def)

lemma api_url_no_token:
  "USER_TOKEN cfg = [] \<Longrightarrow>
    api_url cfg path = API_BASE @ path @ (if CHR ''?'' \<in> set path then ''&'' else ''?'')
                         @ ''agent='' @ AGENT_NAME cfg"
  by (simp add: api_url_def)

lemma API_BASE_no_query: "CHR ''?'' \<notin> set API_BASE"
  by (simp add: API_BASE_def)

lemma query_string_base: "query_string (API_BASE @ s) = query_string s"
proof -
  have "dropWhile (\<lambda>c. c \<noteq> CHR ''?'') (API_BASE @ s) = dropWhile (\<lambda>c. c \<noteq> CHR ''?'') s"
    using API_BASE_no_query by (intro dropWhile_append2) auto
  then show ?thesis by (simp add: query_string_def)
qed

lemma query_keys_base: "query_keys (API_BASE @ s) = query_keys s"
  by (simp add: query_keys_def query_string_base)

lemma agent_piece:
  "''agent'' \<in> set (map (takeWhile (\<lambda>c. c \<noteq> CHR ''=''))
      (filter (\<lambda>p. p \<noteq> []) (splitc CHR ''&'' (''agent='' @ name))))"
proof -
  obtain w ws where s: "splitc CHR ''&'' name = w # ws"
    using splitc_nonempty [of "CHR ''&''" name] by (cases "splitc CHR ''&'' name") auto
  have "splitc CHR ''&'' (''agent='' @ name) = (''agent='' @ w) # ws"
    by (simp add: s)
  then show ?thesis by simp
qed

lemma agent_key_appended:
  assumes "USER_TOKEN cfg = []"
  shows "''agent'' \<in> set (query_keys (api_url cfg path))"
proof (cases "CHR ''?'' \<in> set path")
  case True
  then obtain base qs where p: "path = base @ CHR ''?'' # qs" "CHR ''?'' \<notin> set base"
    using query_string_split by blast
  have u: "api_url cfg path = API_BASE @ base @ CHR ''?'' # (qs @ CHR ''&'' # (''agent='' @ AGENT_NAME cfg))"
    using assms True p by (simp add: api_url_no_token)
  have "query_string (api_url cfg path) = Some (qs @ CHR ''&'' # (''agent='' @ AGENT_NAME cfg))"
    unfolding u query_string_base using p(2) by (rule query_string_first)
  then show ?thesis using agent_piece [of "AGENT_NAME cfg"]
    by (simp add: query_keys_def splitc_append del: splitc.simps)
next
  case False
  have u: "api_url cfg path = API_BASE @ path @ CHR ''?'' # (''agent='' @ AGENT_NAME cfg)"
    using assms False by (simp add: api_url_no_token)
  have "query_string (api_url cfg path) = Some (''agent='' @ AGENT_NAME cfg)"
    unfolding u query_string_base using False by (rule query_string_first)
  then show ?thesis using agent_piece [of "AGENT_NAME cfg"]
    by (simp add: query_keys_def del: splitc.simps)
qed

lemma no_query_no_keys: "CHR ''?'' \<notin> set s \<Longrightarrow> query_keys s = []"
  by (simp add: query_keys_def query_string_none)

lemma tool_path_no_agent:
  assumes "CHR ''?'' \<notin> set (slug_of call)"
  shows "''agent'' \<notin> set (query_keys (tool_path call))"
proof (cases call)
  case (Browse_people args)
  then show ?thesis by (simp add: browse_people_keys)
next
  case (Find_needs args)
  then show ?thesis by (simp add: find_needs_keys)
next
  case (My_contributions args)
  then show ?thesis by (simp add: my_contributions_keys)
next
  case (Leaderboard limit)
  then show ?thesis by (simp add: leaderboard_keys)
qed (use assms in \<open>simp_all add: no_query_no_keys\<close>)

lemma count_query_path:
  assumes "CHR ''?'' \<notin> set base" "CHR ''?'' \<notin> set qs"
  shows "count_list (base @ (if qs \<noteq> [] then ''?'' @ qs else [])) CHR ''?'' \<le> 1"
  using assms by (simp add: count_list_0_iff)

lemma tool_path_qmarks:
  assumes "CHR ''?'' \<notin> set (slug_of call)"
  shows "count_list (tool_path call) CHR ''?'' \<le> 1"
proof (cases call)
  case (Browse_people args)
  have "CHR ''?'' \<notin> set ''/people''" by simp
  then show ?thesis unfolding Browse_people tool_path.simps browse_people_path_def Let_def
    using set_params_toString by (rule count_query_path)
next
  case (Find_needs args)
  have "CHR ''?'' \<notin> set ''/needs''" by simp
  then show ?thesis unfolding Find_needs tool_path.simps find_needs_path_def Let_def
    using set_params_toString by (rule count_query_path)
next
  case (My_contributions args)
  have "CHR ''?'' \<notin> set ''/contributions''" by simp
  then show ?thesis unfolding My_contributions tool_path.simps my_contributions_path_def Let_def
    using set_params_toString by (rule count_query_path)
next
  case (Leaderboard limit)
  then show ?thesis using number_no_reserved
    by (simp add: leaderboard_path_def count_list_0_iff split: option.splits)
qed (use assms in \<open>simp_all add: count_list_0_iff\<close>)

lemma count_url:
  assumes "USER_TOKEN cfg = []"
  shows "count_list (api_url cfg path) CHR ''?''
       = (if CHR ''?'' \<in> set path then count_list path CHR ''?'' else 1)
         + count_list (AGENT_NAME cfg) CHR ''?''"
  using assms API_BASE_no_query
  by (simp add: api_url_no_token count_list_0_iff)

lemma count_tool_url:
  assumes "USER_TOKEN cfg = []" "CHR ''?'' \<notin> set (slug_of call)" "CHR ''?'' \<notin> set (AGENT_NAME cfg)"
  shows "count_list (api_url cfg (tool_path call)) CHR ''?'' = 1"
proof -
  have le: "count_list (tool_path call) CHR ''?'' \<le> 1" using assms(2) by (rule tool_path_qmarks)
  have "CHR ''?'' \<in> set (tool_path call) \<Longrightarrow> count_list (tool_path call) CHR ''?'' \<noteq> 0"
    by (simp add: count_list_0_iff)
  with le have "CHR ''?'' \<in> set (tool_path call) \<Longrightarrow> count_list (tool_path call) CHR ''?'' = 1"
    by linarith
  then show ?thesis using assms(3) by (simp add: count_url [OF assms(1)] count_list_0_iff)
qed

text \<open>Claim C4, as stated: with a bearer token, no request URL has an \<^verbatim>\<open>agent=\<close>
  parameter. A slug is substituted as it is, so it can carry one into the URL.\<close>

theorem token_url_with_agent_parameter:
  "USER_TOKEN \<lparr>AGENT_NAME = ''mcp-agent'', MODEL_NAME = [], USER_TOKEN = ''jwt''\<rparr> \<noteq> []
   \<and> api_url \<lparr>AGENT_NAME = ''mcp-agent'', MODEL_NAME = [], USER_TOKEN = ''jwt''\<rparr>
        (tool_path (Get_assignment ''x?agent=y'')) = ''https://api.biopics.ai/assignment/x?agent=y''
   \<and> ''agent'' \<in> set (query_keys
        (api_url \<lparr>AGENT_NAME = ''mcp-agent'', MODEL_NAME = [], USER_TOKEN = ''jwt''\<rparr>
          (tool_path (Get_assignment ''x?agent=y''))))"
  by (simp add: api_url_def API_BASE_def query_keys_def query_string_def)

text \<open>
  Claim C4, amended. With a bearer token the client appends nothing: the URL is the base
  followed by the path, so it has an \<^verbatim>\<open>agent=\<close> parameter only when the path it was given
  has one. Without a token the client appends \<^verbatim>\<open>agent=<agent name>\<close>, after \<^verbatim>\<open>&\<close> or
  \<^verbatim>\<open>?\<close>. No handler builds a path with an \<^verbatim>\<open>agent\<close> key unless the slug it was given
  contains a \<^verbatim>\<open>?\<close>; so for a call whose slug has none, the URL has the \<^verbatim>\<open>agent=\<close>
  parameter exactly when no token is configured.
\<close>

theorem agent_parameter_unless_token:
  "api_url cfg path =
      (if USER_TOKEN cfg \<noteq> [] then API_BASE @ path
       else API_BASE @ path @ (if CHR ''?'' \<in> set path then ''&'' else ''?'')
              @ ''agent='' @ AGENT_NAME cfg)
   \<and> (''agent'' \<in> set (query_keys (api_url cfg path)))
       = (USER_TOKEN cfg = [] \<or> ''agent'' \<in> set (query_keys path))
   \<and> (CHR ''?'' \<notin> set (slug_of call) \<longrightarrow>
        (''agent'' \<in> set (query_keys (api_url cfg (tool_path call)))) = (USER_TOKEN cfg = []))"
proof -
  have k: "(''agent'' \<in> set (query_keys (api_url cfg p)))
       = (USER_TOKEN cfg = [] \<or> ''agent'' \<in> set (query_keys p))" for p
  proof (cases "USER_TOKEN cfg = []")
    case True
    then show ?thesis using agent_key_appended [of cfg p] by simp
  next
    case False
    then show ?thesis by (simp add: api_url_token query_keys_base)
  qed
  have u: "api_url cfg path =
      (if USER_TOKEN cfg \<noteq> [] then API_BASE @ path
       else API_BASE @ path @ (if CHR ''?'' \<in> set path then ''&'' else ''?'')
              @ ''agent='' @ AGENT_NAME cfg)"
    by (simp add: api_url_def)
  have t: "CHR ''?'' \<notin> set (slug_of call) \<longrightarrow>
        (''agent'' \<in> set (query_keys (api_url cfg (tool_path call)))) = (USER_TOKEN cfg = [])"
    using k [of "tool_path call"] tool_path_no_agent [of call] by blast
  show ?thesis using u k [of path] t by blast
qed

theorem agent_parameter_unless_token_witness:
  "CHR ''?'' \<notin> set (slug_of (Get_assignment ''ada-lovelace''))
   \<and> api_url \<lparr>AGENT_NAME = ''mcp-agent'', MODEL_NAME = [], USER_TOKEN = ''jwt''\<rparr>
        (tool_path (Get_assignment ''ada-lovelace''))
      = ''https://api.biopics.ai/assignment/ada-lovelace''
   \<and> ''agent'' \<notin> set (query_keys
        (api_url \<lparr>AGENT_NAME = ''mcp-agent'', MODEL_NAME = [], USER_TOKEN = ''jwt''\<rparr>
          (tool_path (Get_assignment ''ada-lovelace''))))
   \<and> api_url \<lparr>AGENT_NAME = ''mcp-agent'', MODEL_NAME = [], USER_TOKEN = []\<rparr>
        (tool_path (Get_assignment ''ada-lovelace''))
      = ''https://api.biopics.ai/assignment/ada-lovelace?agent=mcp-agent''
   \<and> ''agent'' \<in> set (query_keys
        (api_url \<lparr>AGENT_NAME = ''mcp-agent'', MODEL_NAME = [], USER_TOKEN = []\<rparr>
          (tool_path (Get_assignment ''ada-lovelace''))))"
  using agent_parameter_unless_token
      [of "\<lparr>AGENT_NAME = ''mcp-agent'', MODEL_NAME = [], USER_TOKEN = ''jwt''\<rparr>"
          "tool_path (Get_assignment ''ada-lovelace'')" "Get_assignment ''ada-lovelace''"]
    agent_parameter_unless_token
      [of "\<lparr>AGENT_NAME = ''mcp-agent'', MODEL_NAME = [], USER_TOKEN = []\<rparr>"
          "tool_path (Get_assignment ''ada-lovelace'')" "Get_assignment ''ada-lovelace''"]
  by (simp add: API_BASE_def query_keys_def query_string_def)

text \<open>Claim C10, as stated: with no token, the URL of every tool path has exactly one
  \<^verbatim>\<open>?\<close>. A slug with two of them gives a URL with two.\<close>

theorem slug_with_two_question_marks:
  "USER_TOKEN \<lparr>AGENT_NAME = ''mcp-agent'', MODEL_NAME = [], USER_TOKEN = []\<rparr> = []
   \<and> api_url \<lparr>AGENT_NAME = ''mcp-agent'', MODEL_NAME = [], USER_TOKEN = []\<rparr>
        (tool_path (Get_assignment ''a?b?c''))
      = ''https://api.biopics.ai/assignment/a?b?c&agent=mcp-agent''
   \<and> count_list (api_url \<lparr>AGENT_NAME = ''mcp-agent'', MODEL_NAME = [], USER_TOKEN = []\<rparr>
        (tool_path (Get_assignment ''a?b?c''))) CHR ''?'' = 2"
  by (simp add: api_url_def API_BASE_def)

text \<open>
  Claim C10, amended. With no token, the client appends the agent parameter with \<^verbatim>\<open>&\<close>
  when the path already contains a \<^verbatim>\<open>?\<close> and with \<^verbatim>\<open>?\<close> otherwise; it adds a \<^verbatim>\<open>?\<close> only
  when the path has none, so the URL has the \<^verbatim>\<open>?\<close> of the path (one if the path had
  none) and those of the agent name. For every tool call whose slug contains no \<^verbatim>\<open>?\<close>,
  and an agent name that contains none, the URL has exactly one \<^verbatim>\<open>?\<close>.
\<close>

theorem one_question_mark:
  assumes "USER_TOKEN cfg = []"
  shows "api_url cfg path =
           API_BASE @ path @ (if CHR ''?'' \<in> set path then ''&'' else ''?'')
             @ ''agent='' @ AGENT_NAME cfg
   \<and> count_list (api_url cfg path) CHR ''?''
       = (if CHR ''?'' \<in> set path then count_list path CHR ''?'' else 1)
         + count_list (AGENT_NAME cfg) CHR ''?''
   \<and> (CHR ''?'' \<notin> set (slug_of call) \<and> CHR ''?'' \<notin> set (AGENT_NAME cfg) \<longrightarrow>
        count_list (api_url cfg (tool_path call)) CHR ''?'' = 1)"
  using api_url_no_token [OF assms, of path] count_url [OF assms, of path]
    count_tool_url [OF assms, of call]
  by blast

theorem one_question_mark_witness:
  "USER_TOKEN \<lparr>AGENT_NAME = ''mcp-agent'', MODEL_NAME = [], USER_TOKEN = []\<rparr> = []
   \<and> CHR ''?'' \<notin> set (slug_of (Leaderboard (Some 5)))
   \<and> CHR ''?'' \<notin> set (AGENT_NAME \<lparr>AGENT_NAME = ''mcp-agent'', MODEL_NAME = [], USER_TOKEN = []\<rparr>)
   \<and> tool_path (Leaderboard (Some 5)) = ''/leaderboard?limit=5''
   \<and> count_list (api_url \<lparr>AGENT_NAME = ''mcp-agent'', MODEL_NAME = [], USER_TOKEN = []\<rparr>
        (tool_path (Leaderboard (Some 5)))) CHR ''?'' = 1"
  using one_question_mark
      [of "\<lparr>AGENT_NAME = ''mcp-agent'', MODEL_NAME = [], USER_TOKEN = []\<rparr>"
          "tool_path (Leaderboard (Some 5))" "Leaderboard (Some 5)"]
  by (simp add: leaderboard_path_def String_of_number_def digits.simps digit_char_def
        API_BASE_def)

section \<open>Reading back what \<^verbatim>\<open>JSON.stringify\<close> wrote\<close>

subsection \<open>Numbers\<close>

lemma skipws_ws: "(\<And>c. c \<in> set w \<Longrightarrow> is_ws c) \<Longrightarrow> skipws (w @ s) = skipws s"
  unfolding skipws_def by (rule dropWhile_append2) simp

lemma skipws_start: "\<not> is_ws c \<Longrightarrow> skipws (c # s) = c # s"
  by (simp add: skipws_def)

lemma digit_table: "\<forall>d \<in> set [0..<10]. digit_val (digit_char d) = d \<and> is_digit (digit_char d)
    \<and> digit_char d \<noteq> CHR ''-'' \<and> \<not> is_ws (digit_char d) \<and> digit_char d \<noteq> CHR '']''"
  by code_simp

lemma digit_char_props:
  assumes "d < 10"
  shows "digit_val (digit_char d) = d" "is_digit (digit_char d)" "digit_char d \<noteq> CHR ''-''"
    "\<not> is_ws (digit_char d)" "digit_char d \<noteq> CHR '']''"
  using assms digit_table by simp_all

lemma digits_all_digit: "c \<in> set (digits n) \<Longrightarrow> is_digit c"
proof (induction n rule: digits.induct)
  case (1 n)
  show ?case
  proof (cases "n < 10")
    case True
    then show ?thesis using 1(2) digit_char_props(2) [of n] by (subst (asm) digits.simps) simp
  next
    case False
    have "is_digit (digit_char (n mod 10))" by (rule digit_char_props) simp
    then show ?thesis using False 1 by (subst (asm) (2) digits.simps) auto
  qed
qed

lemma nat_of_digits_snoc: "nat_of_digits (ds @ [c]) = 10 * nat_of_digits ds + digit_val c"
  by (simp add: nat_of_digits_def)

lemma nat_of_digits_digits: "nat_of_digits (digits n) = n"
proof (induction n rule: digits.induct)
  case (1 n)
  show ?case
  proof (cases "n < 10")
    case True
    then show ?thesis using digit_char_props(1) [of n]
      by (subst digits.simps) (simp add: nat_of_digits_def)
  next
    case False
    have "digit_val (digit_char (n mod 10)) = n mod 10" by (rule digit_char_props) simp
    then show ?thesis using False 1
      by (subst digits.simps) (simp add: nat_of_digits_snoc)
  qed
qed

lemma digits_start: "\<exists>c s. digits n = c # s \<and> is_digit c \<and> c \<noteq> CHR ''-'' \<and> \<not> is_ws c \<and> c \<noteq> CHR '']''"
proof (induction n rule: digits.induct)
  case (1 n)
  show ?case
  proof (cases "n < 10")
    case True
    then show ?thesis using digit_char_props [of n] by (subst digits.simps) simp
  next
    case False
    then obtain c s where "digits (n div 10) = c # s \<and> is_digit c \<and> c \<noteq> CHR ''-'' \<and> \<not> is_ws c \<and> c \<noteq> CHR '']''"
      using 1 by blast
    then show ?thesis using False by (subst digits.simps) simp
  qed
qed

lemma takeWhile_run:
  "(\<And>c. c \<in> set xs \<Longrightarrow> P c) \<Longrightarrow> (case ys of [] \<Rightarrow> True | y # _ \<Rightarrow> \<not> P y) \<Longrightarrow>
     takeWhile P (xs @ ys) = xs \<and> dropWhile P (xs @ ys) = ys"
  by (induction xs) (auto split: list.splits)


lemma digit_is_numeral_char: "is_digit c \<Longrightarrow> is_numeral_char c"
  by (auto simp add: is_digit_def is_numeral_char_def)

lemma numeral_end_chars:
  assumes "numeral_end (c # r)"
  shows "\<not> is_digit c" "c \<noteq> CHR ''-''" "c \<noteq> CHR ''+''" "c \<noteq> CHR ''.''" "c \<noteq> CHR ''e''"
    "c \<noteq> CHR ''E''"
  using assms by (auto simp add: numeral_end_def is_numeral_char_def is_digit_def)

lemma span_frame:
  "(case ys of [] \<Rightarrow> True | y # _ \<Rightarrow> \<not> P y) \<Longrightarrow>
     takeWhile P (xs @ ys) = takeWhile P xs \<and> dropWhile P (xs @ ys) = dropWhile P xs @ ys"
  by (induction xs) (auto split: list.splits)

lemma read_digits_frame:
  assumes "numeral_end rest"
  shows "read_digits (s @ rest) = (fst (read_digits s), snd (read_digits s) @ rest)"
proof -
  have "case rest of [] \<Rightarrow> True | y # _ \<Rightarrow> \<not> is_digit y"
    using assms numeral_end_chars(1) by (cases rest) auto
  then show ?thesis using span_frame [where ys = rest and P = is_digit and xs = s] by (simp add: read_digits_def)
qed

lemma read_sign_frame:
  assumes "numeral_end rest"
  shows "read_sign (s @ rest) = (fst (read_sign s), snd (read_sign s) @ rest)"
proof (cases s)
  case Nil
  then show ?thesis using assms numeral_end_chars(2) by (cases rest) (auto simp add: read_sign_def)
next
  case (Cons c r)
  then show ?thesis by (simp add: read_sign_def)
qed

lemma read_frac_frame:
  assumes "numeral_end rest"
  shows "read_frac (s @ rest) = map_option (\<lambda>(t, r). (t, r @ rest)) (read_frac s)"
proof (cases s)
  case Nil
  then show ?thesis using assms numeral_end_chars(4) by (cases rest) (auto simp add: read_frac_def)
next
  case (Cons c r)
  then show ?thesis using read_digits_frame [OF assms, of r]
    by (simp add: read_frac_def split: prod.splits)
qed

lemma read_exp_frame:
  assumes "numeral_end rest"
  shows "read_exp (s @ rest) = map_option (\<lambda>(t, r). (t, r @ rest)) (read_exp s)"
proof (cases s)
  case Nil
  then show ?thesis using assms numeral_end_chars(5,6)
    by (cases rest) (auto simp add: read_exp_def)
next
  case (Cons c r)
  note s = Cons
  show ?thesis
  proof (cases "c = CHR ''e'' \<or> c = CHR ''E''")
    case False
    then show ?thesis using s by (simp add: read_exp_def)
  next
    case True
    show ?thesis
    proof (cases r)
      case Nil
      have "read_digits rest = ([], rest)"
        using read_digits_frame [OF assms, of "[]"] by (simp add: read_digits_def)
      then show ?thesis using Nil s True assms numeral_end_chars(2,3)
        by (cases rest) (auto simp add: read_exp_def read_digits_def)
    next
      case (Cons x r1)
      then show ?thesis using s True read_digits_frame [OF assms, of r1]
          read_digits_frame [OF assms, of "x # r1"]
        by (auto simp add: read_exp_def split: prod.splits)
    qed
  qed
qed

lemma parse_number_frame:
  assumes "numeral_end rest"
  shows "parse_number (s @ rest) = map_option (\<lambda>(v, r). (v, r @ rest)) (parse_number s)"
proof -
  obtain sg s1 where sg: "read_sign s = (sg, s1)" by (cases "read_sign s")
  obtain ip s2 where ip: "read_digits s1 = (ip, s2)" by (cases "read_digits s1")
  have a: "read_sign (s @ rest) = (sg, s1 @ rest)"
    using read_sign_frame [OF assms, of s] sg by simp
  have b: "read_digits (s1 @ rest) = (ip, s2 @ rest)"
    using read_digits_frame [OF assms, of s1] ip by simp
  show ?thesis
  proof (cases "read_frac s2")
    case None
    then show ?thesis using read_frac_frame [OF assms, of s2]
      by (simp add: parse_number_def sg ip a b)
  next
    case (Some f)
    obtain fp s3 where f: "f = (fp, s3)" by (cases f)
    have c: "read_frac (s2 @ rest) = Some (fp, s3 @ rest)"
      using read_frac_frame [OF assms, of s2] Some f by simp
    show ?thesis
    proof (cases "read_exp s3")
      case None
      then show ?thesis using read_exp_frame [OF assms, of s3]
        by (simp add: parse_number_def sg ip a b c Some f)
    next
      case (Some e)
      obtain ep s4 where e: "e = (ep, s4)" by (cases e)
      have d: "read_exp (s3 @ rest) = Some (ep, s4 @ rest)"
        using read_exp_frame [OF assms, of s3] Some e by simp
      show ?thesis using Some e \<open>read_frac s2 = Some f\<close> f
        by (simp add: parse_number_def sg ip a b c d)
    qed
  qed
qed

lemma digit_zero_table: "\<forall>d \<in> set [1..<10]. digit_char d \<noteq> CHR ''0''"
  by code_simp

lemma digits_leading:
  "0 < n \<Longrightarrow> hd (digits n) \<noteq> CHR ''0''"
proof (induction n rule: digits.induct)
  case (1 n)
  show ?case
  proof (cases "n < 10")
    case True
    then have "digit_char n \<noteq> CHR ''0''" using 1(2) digit_zero_table by simp
    then show ?thesis using True by (subst digits.simps) simp
  next
    case False
    then have "0 < n div 10" by simp
    then have "hd (digits (n div 10)) \<noteq> CHR ''0''" using 1(1) False by simp
    then show ?thesis using False digits_nonempty [of "n div 10"]
      by (subst digits.simps) simp
  qed
qed

lemma digits_single: "n < 10 \<Longrightarrow> length (digits n) = 1"
  by (subst digits.simps) simp

lemma digits_no_leading_zero: "\<not> (1 < length (digits n) \<and> hd (digits n) = CHR ''0'')"
proof (cases "n = 0")
  case True
  then show ?thesis using digits_single [of 0] by simp
next
  case False
  then show ?thesis using digits_leading [of n] by simp
qed

lemma read_digits_digits: "read_digits (digits n) = (digits n, [])"
proof -
  have "takeWhile is_digit (digits n) = digits n"
    using digits_all_digit by (intro takeWhile_eq_all_conv [THEN iffD2]) blast
  moreover have "dropWhile is_digit (digits n) = []"
    using digits_all_digit by (simp add: dropWhile_eq_Nil_conv)
  ultimately show ?thesis by (simp add: read_digits_def)
qed

lemma read_sign_digits: "read_sign (digits n) = ([], digits n)"
proof -
  obtain c s where "digits n = c # s" "c \<noteq> CHR ''-''" using digits_start by blast
  then show ?thesis by (simp add: read_sign_def)
qed

lemma read_nothing: "read_frac [] = Some ([], [])" "read_exp [] = Some ([], [])"
  by (simp_all add: read_frac_def read_exp_def)

lemma parse_digits:
  "parse_number (digits n) = Some (JNumber (number_of_numeral [] (digits n) [] []), [])"
  using digits_no_leading_zero [of n] digits_nonempty [of n]
  by (simp add: parse_number_def read_sign_digits read_digits_digits read_nothing)

lemma parse_minus_digits:
  "parse_number (CHR ''-'' # digits n)
     = Some (JNumber (number_of_numeral ''-'' (digits n) [] []), [])"
  using digits_no_leading_zero [of n] digits_nonempty [of n]
  by (simp add: parse_number_def read_sign_def read_digits_digits read_nothing)

lemma parse_number_int:
  assumes "- MAX_SAFE_INTEGER \<le> n" "n \<le> MAX_SAFE_INTEGER"
  shows "parse_number (String_of_number n) = Some (JNumber (JInt n), [])"
proof (cases "n < 0")
  case True
  have "number_of_numeral ''-'' (digits (nat (- n))) [] [] = JInt n"
    using True assms by (simp add: number_of_numeral_def nat_of_digits_digits)
  then show ?thesis using True by (simp add: String_of_number_def parse_minus_digits)
next
  case False
  have "number_of_numeral [] (digits (nat n)) [] [] = JInt n"
    using False assms by (simp add: number_of_numeral_def nat_of_digits_digits)
  then show ?thesis using False by (simp add: String_of_number_def parse_digits)
qed

lemma number_ok_finite: "number_ok x \<Longrightarrow> is_finite x"
  by (cases x) (simp_all add: number_ok_def is_finite_def)

lemma parse_number_whole:
  "number_ok x \<Longrightarrow> parse_number (Number_toString x) = Some (JNumber x, [])"
  by (cases x) (simp_all add: number_ok_def Number_toString_def parse_number_int numeral_ok_def)

lemma parse_number_roundtrip:
  assumes "number_ok x" "numeral_end rest"
  shows "parse_number (Number_toString x @ rest) = Some (JNumber x, rest)"
  using parse_number_frame [OF assms(2), of "Number_toString x"] parse_number_whole [OF assms(1)]
  by simp

lemma parse_number_start:
  assumes "parse_number s = Some r"
  shows "\<exists>c t. s = c # t \<and> (c = CHR ''-'' \<or> is_digit c)"
proof (cases s)
  case Nil
  then show ?thesis using assms by (simp add: parse_number_def read_sign_def read_digits_def)
next
  case (Cons c t)
  show ?thesis
  proof (cases "c = CHR ''-''")
    case True
    then show ?thesis using Cons by simp
  next
    case False
    have "takeWhile is_digit (c # t) \<noteq> []"
      using assms Cons False
      by (auto simp add: parse_number_def read_sign_def read_digits_def split: if_splits)
    then have "is_digit c" by (simp split: if_splits)
    then show ?thesis using Cons by simp
  qed
qed

lemma number_start:
  assumes "number_ok x"
  shows "\<exists>c s. Number_toString x = c # s \<and> (c = CHR ''-'' \<or> is_digit c)"
  using parse_number_start [OF parse_number_whole [OF assms]] .

subsection \<open>Strings\<close>

lemma hex_table: "\<forall>d \<in> set [0..<16]. hex_val (hex_lower d) = Some d"
  by code_simp

lemma hex_val_lower: "d < 16 \<Longrightarrow> hex_val (hex_lower d) = Some d"
  using hex_table by simp

lemma hex_val_zero: "hex_val CHR ''0'' = Some 0"
  by code_simp

lemma control_escape:
  assumes "(of_char c :: nat) < 32"
  shows "unicode_escape CHR ''0'' CHR ''0'' (hex_lower (of_char c div 16)) (hex_lower (of_char c mod 16))
           = Some [c]"
proof -
  have a: "hex_val (hex_lower (of_char c div 16)) = Some (of_char c div 16)"
    using assms by (intro hex_val_lower) simp
  have b: "hex_val (hex_lower (of_char c mod 16)) = Some (of_char c mod 16)"
    by (intro hex_val_lower) simp
  have "utf8_encode (of_char c) = Some [c]" using assms by (simp add: utf8_encode_def)
  then show ?thesis by (simp add: unicode_escape_def hex_val_zero a b)
qed

lemma parse_chars_quote:
  "parse_chars (quote_char c @ rest)
     = (case parse_chars rest of None \<Rightarrow> None | Some (t, r) \<Rightarrow> Some (c # t, r))"
proof -
  consider (bs) "c = CHR 0x08" | (tab) "c = CHR 0x09" | (nl) "c = CHR 0x0A" | (ff) "c = CHR 0x0C"
    | (cr) "c = CHR 0x0D" | (quote) "c = CHR 0x22" | (backslash) "c = CHR 0x5C"
    | (control) "c \<noteq> CHR 0x08" "c \<noteq> CHR 0x09" "c \<noteq> CHR 0x0A" "c \<noteq> CHR 0x0C" "c \<noteq> CHR 0x0D"
        "c \<noteq> CHR 0x22" "c \<noteq> CHR 0x5C" "(of_char c :: nat) < 32"
    | (plain) "c \<noteq> CHR 0x08" "c \<noteq> CHR 0x09" "c \<noteq> CHR 0x0A" "c \<noteq> CHR 0x0C" "c \<noteq> CHR 0x0D"
        "c \<noteq> CHR 0x22" "c \<noteq> CHR 0x5C" "\<not> (of_char c :: nat) < 32"
    by blast
  then show ?thesis
  proof cases
    case control
    then show ?thesis
      by (simp add: quote_char_def control_escape split: option.splits)
  next
    case plain
    then show ?thesis by (simp add: quote_char_def)
  qed (auto simp add: quote_char_def simple_escape_def split: option.splits)
qed

lemma parse_chars_roundtrip:
  "parse_chars (concat (map quote_char s) @ CHR 0x22 # rest) = Some (s, rest)"
  by (induction s) (simp_all add: parse_chars_quote del: parse_chars.simps(2), simp)

subsection \<open>Arrays and objects\<close>

lemma ws_not_numeral: "is_ws c \<Longrightarrow> \<not> is_numeral_char c"
  by (auto simp add: is_ws_def is_numeral_char_def)

lemma numeral_end_after_ws:
  "(\<And>c. c \<in> set w \<Longrightarrow> is_ws c) \<Longrightarrow> \<not> is_numeral_char x
     \<Longrightarrow> numeral_end (w @ x # rest)"
  by (cases w) (auto simp add: numeral_end_def ws_not_numeral)

lemma skipws_then:
  "(\<And>c. c \<in> set w \<Longrightarrow> is_ws c) \<Longrightarrow> \<not> is_ws x \<Longrightarrow> skipws (w @ x # rest) = x # rest"
  by (simp add: skipws_ws skipws_start)

lemma parse_value_skip:
  "(\<And>c. c \<in> set w \<Longrightarrow> is_ws c) \<Longrightarrow> parse_value n (w @ s) = parse_value n s"
  by (cases n) (simp_all add: skipws_ws)

lemma parse_elements_skip:
  "(\<And>c. c \<in> set w \<Longrightarrow> is_ws c) \<Longrightarrow> parse_elements n (w @ s) = parse_elements n s"
  by (cases n) (simp_all add: parse_value_skip)

lemma parse_members_skip:
  "(\<And>c. c \<in> set w \<Longrightarrow> is_ws c) \<Longrightarrow> parse_members n (w @ s) = parse_members n s"
  by (cases n) (simp_all add: skipws_ws)

lemma punct:
  "\<not> is_ws CHR '']''" "\<not> is_ws CHR ''}''" "\<not> is_ws CHR '',''" "\<not> is_ws CHR '':''"
  "\<not> is_ws CHR 0x22" "\<not> is_ws CHR ''[''" "\<not> is_ws CHR ''{''"
  "\<not> is_numeral_char CHR '']''" "\<not> is_numeral_char CHR ''}''" "\<not> is_numeral_char CHR '',''"
  by code_simp+

lemma parse_elements_join:
  assumes val: "\<And>v rest n. v \<in> set vs \<Longrightarrow> numeral_end rest \<Longrightarrow> length (S v) \<le> n
                  \<Longrightarrow> parse_value n (S v @ rest) = Some (v, rest)"
    and nonempty: "\<And>v. v \<in> set vs \<Longrightarrow> S v \<noteq> []"
    and w: "\<And>c. c \<in> set w \<Longrightarrow> is_ws c" and w': "\<And>c. c \<in> set w' \<Longrightarrow> is_ws c"
    and "vs \<noteq> []"
    and "length (join (CHR '','' # w) (map S vs)) < n"
  shows "parse_elements n (join (CHR '','' # w) (map S vs) @ w' @ CHR '']'' # rest) = Some (vs, rest)"
  using assms(1,2,5,6)
proof (induction vs arbitrary: n)
  case Nil
  then show ?case by simp
next
  case (Cons v vs)
  obtain m where n: "n = Suc m" using Cons.prems(4) by (cases n) auto
  show ?case
  proof (cases vs)
    case Nil
    have nd: "numeral_end (w' @ CHR '']'' # rest)" using w' punct by (intro numeral_end_after_ws) auto
    have "length (S v) \<le> m" using Cons.prems(4) Nil n by simp
    then have pv: "parse_value m (S v @ w' @ CHR '']'' # rest) = Some (v, w' @ CHR '']'' # rest)"
      using Cons.prems(1) [of v] nd by simp
    have sk: "skipws (w' @ CHR '']'' # rest) = CHR '']'' # rest"
      using w' punct by (intro skipws_then) auto
    show ?thesis using Nil n pv sk by simp
  next
    case (Cons y ys)
    let ?tail = "join (CHR '','' # w) (map S (y # ys)) @ w' @ CHR '']'' # rest"
    have nd: "numeral_end (CHR '','' # w @ ?tail)" using punct by (simp add: numeral_end_def)
    have lens: "length (S v) \<le> m" "length (join (CHR '','' # w) (map S (y # ys))) < m"
      using Cons.prems(4) Cons n Cons.prems(2) [of v]
      by (simp_all add: Suc_le_eq)
    have pv: "parse_value m (S v @ CHR '','' # w @ ?tail) = Some (v, CHR '','' # w @ ?tail)"
      using Cons.prems(1) [of v] nd lens(1) by simp
    have sk: "skipws (CHR '','' # w @ ?tail) = CHR '','' # w @ ?tail"
      using punct by (simp add: skipws_start)
    have ih: "parse_elements m ?tail = Some (y # ys, rest)"
      using Cons.IH [of m] Cons.prems(1,2) lens(2) Cons by simp
    have "parse_elements m (w @ ?tail) = Some (y # ys, rest)"
      using ih w by (simp add: parse_elements_skip)
    then show ?thesis using Cons n pv sk by simp
  qed
qed

lemma parse_member_step:
  assumes pv: "parse_value m (S v @ tail) = Some (v, tail)"
    and sp: "\<And>c. c \<in> set sp \<Longrightarrow> is_ws c"
  shows "parse_members (Suc m) ((QuoteJSONString k @ '':'' @ sp @ S v) @ tail) =
      (case skipws tail of [] \<Rightarrow> None
       | d # r4 \<Rightarrow>
           if d = CHR '','' then
             (case parse_members m r4 of None \<Rightarrow> None
              | Some (kvs, r5) \<Rightarrow> Some ((k, v) # kvs, r5))
           else if d = CHR ''}'' then Some ([(k, v)], r4)
           else None)"
proof -
  have member: "(QuoteJSONString k @ '':'' @ sp @ S v) @ tail
      = CHR 0x22 # (concat (map quote_char k) @ CHR 0x22 # (CHR '':'' # (sp @ S v @ tail)))"
    by (simp add: QuoteJSONString_def)
  have pv': "parse_value m (sp @ S v @ tail) = Some (v, tail)"
    using pv sp by (simp add: parse_value_skip)
  have s1: "skipws (CHR 0x22 # x) = CHR 0x22 # x" for x
    using punct by (simp add: skipws_start)
  have s2: "skipws (CHR '':'' # x) = CHR '':'' # x" for x
    using punct by (simp add: skipws_start)
  show ?thesis
    unfolding member parse_members.simps s1
    by (simp add: parse_chars_roundtrip s2 pv' del: parse_chars.simps)
qed

lemma parse_members_join:
  assumes val: "\<And>k v rest n. (k, v) \<in> set kvs \<Longrightarrow> numeral_end rest \<Longrightarrow> length (S v) \<le> n
                  \<Longrightarrow> parse_value n (S v @ rest) = Some (v, rest)"
    and w: "\<And>c. c \<in> set w \<Longrightarrow> is_ws c" and w': "\<And>c. c \<in> set w' \<Longrightarrow> is_ws c"
    and sp: "\<And>c. c \<in> set sp \<Longrightarrow> is_ws c"
    and "kvs \<noteq> []"
    and "length (join (CHR '','' # w) (map (\<lambda>(k, v). QuoteJSONString k @ '':'' @ sp @ S v) kvs)) < n"
  shows "parse_members n
           (join (CHR '','' # w) (map (\<lambda>(k, v). QuoteJSONString k @ '':'' @ sp @ S v) kvs)
              @ w' @ CHR ''}'' # rest) = Some (kvs, rest)"
  using assms(1,5,6)
proof (induction kvs arbitrary: n)
  case Nil
  then show ?case by simp
next
  case (Cons kv kvs)
  note IH = Cons.IH and val = Cons.prems(1) and len = Cons.prems(3)
  obtain k v where kv: "kv = (k, v)" by (cases kv)
  obtain m where n: "n = Suc m" using len by (cases n) auto
  define M where "M = (\<lambda>(k, v). QuoteJSONString k @ '':'' @ sp @ S v)"
  have Mkv: "M (k, v) = QuoteJSONString k @ '':'' @ sp @ S v" by (simp add: M_def)
  have Mlen: "length (S v) < length (M (k, v))" by (simp add: Mkv)
  have len': "length (join (CHR '','' # w) (map M (kv # kvs))) < Suc m"
    using len n by (simp add: M_def)
  have val_v: "numeral_end tail \<Longrightarrow> length (S v) \<le> m \<Longrightarrow> parse_value m (S v @ tail) = Some (v, tail)"
    for tail using val [of k v tail m] kv by simp
  have goal: "parse_members (Suc m) (join (CHR '','' # w) (map M (kv # kvs)) @ w' @ CHR ''}'' # rest)
                = Some (kv # kvs, rest)"
  proof (cases kvs)
    case Nil
    have nd: "numeral_end (w' @ CHR ''}'' # rest)" using w' punct by (intro numeral_end_after_ws) auto
    have "length (S v) \<le> m" using len' Nil kv Mlen by simp
    then have pv: "parse_value m (S v @ w' @ CHR ''}'' # rest) = Some (v, w' @ CHR ''}'' # rest)"
      using nd by (rule val_v [rotated])
    have sk: "skipws (w' @ CHR ''}'' # rest) = CHR ''}'' # rest"
      using w' punct by (intro skipws_then) auto
    have shape: "join (CHR '','' # w) (map M (kv # kvs)) @ w' @ CHR ''}'' # rest
        = (QuoteJSONString k @ '':'' @ sp @ S v) @ (w' @ CHR ''}'' # rest)"
      using Nil kv Mkv by simp
    have "parse_members (Suc m) (join (CHR '','' # w) (map M (kv # kvs)) @ w' @ CHR ''}'' # rest)
        = parse_members (Suc m) ((QuoteJSONString k @ '':'' @ sp @ S v) @ (w' @ CHR ''}'' # rest))"
      by (simp only: shape)
    also have "\<dots> = Some ([(k, v)], rest)"
      by (simp only: parse_member_step [where S = S and sp = sp and k = k, OF pv sp] sk) simp
    finally show ?thesis using Nil kv by simp
  next
    case (Cons y ys)
    define tail where "tail = join (CHR '','' # w) (map M (y # ys)) @ w' @ CHR ''}'' # rest"
    have nd: "numeral_end (CHR '','' # (w @ tail))" using punct by (simp add: numeral_end_def)
    have jl: "length (join (CHR '','' # w) (map M (kv # kvs)))
        = length (M (k, v)) + Suc (length w) + length (join (CHR '','' # w) (map M (y # ys)))"
      using Cons kv by simp
    have l1: "length (S v) \<le> m" using len' jl Mlen by linarith
    have l2: "length (join (CHR '','' # w) (map M (y # ys))) < m" using len' jl Mlen by linarith
    have pv: "parse_value m (S v @ CHR '','' # (w @ tail)) = Some (v, CHR '','' # (w @ tail))"
      using nd l1 by (rule val_v)
    have sk: "skipws (CHR '','' # (w @ tail)) = CHR '','' # (w @ tail)"
      using punct by (simp add: skipws_start)
    have "parse_members m
           (join (CHR '','' # w) (map (\<lambda>(k, v). QuoteJSONString k @ '':'' @ sp @ S v) kvs)
              @ w' @ CHR ''}'' # rest) = Some (kvs, rest)"
    proof (rule IH)
      show "kvs \<noteq> []" using Cons by simp
      show "length (join (CHR '','' # w) (map (\<lambda>(k, v). QuoteJSONString k @ '':'' @ sp @ S v) kvs)) < m"
        using l2 Cons by (simp add: M_def)
      fix k' v' rest' n'
      assume "(k', v') \<in> set kvs" "numeral_end rest'" "length (S v') \<le> n'"
      then show "parse_value n' (S v' @ rest') = Some (v', rest')"
        using val [of k' v' rest' n'] by simp
    qed
    then have ih: "parse_members m tail = Some (y # ys, rest)"
      using Cons by (simp add: tail_def M_def)
    have ih': "parse_members m (w @ tail) = Some (y # ys, rest)"
      using ih w by (simp add: parse_members_skip)
    have shape: "join (CHR '','' # w) (map M (kv # kvs)) @ w' @ CHR ''}'' # rest
        = (QuoteJSONString k @ '':'' @ sp @ S v) @ (CHR '','' # (w @ tail))"
      using Cons kv Mkv by (simp add: tail_def)
    have "parse_members (Suc m) (join (CHR '','' # w) (map M (kv # kvs)) @ w' @ CHR ''}'' # rest)
        = parse_members (Suc m) ((QuoteJSONString k @ '':'' @ sp @ S v) @ (CHR '','' # (w @ tail)))"
      by (simp only: shape)
    also have "\<dots> = Some ((k, v) # y # ys, rest)"
      by (simp only: parse_member_step [where S = S and sp = sp and k = k, OF pv sp] sk)
         (simp add: ih')
    finally show ?thesis using Cons kv by simp
  qed
  show ?case using goal n by (simp add: M_def)
qed

lemma number_table:
  "\<forall>c \<in> set ''-0123456789''. \<not> is_ws c \<and> c \<noteq> CHR ''{'' \<and> c \<noteq> CHR ''['' \<and> c \<noteq> CHR 0x22
      \<and> c \<noteq> CHR ''t'' \<and> c \<noteq> CHR ''f'' \<and> c \<noteq> CHR ''n'' \<and> c \<noteq> CHR '']''"
  by code_simp

lemma number_char:
  assumes "c = CHR ''-'' \<or> is_digit c"
  shows "\<not> is_ws c \<and> c \<noteq> CHR ''{'' \<and> c \<noteq> CHR ''['' \<and> c \<noteq> CHR 0x22
      \<and> c \<noteq> CHR ''t'' \<and> c \<noteq> CHR ''f'' \<and> c \<noteq> CHR ''n'' \<and> c \<noteq> CHR '']''"
proof -
  have "c \<in> set ''-0123456789''" using assms unfolding is_digit_def by auto
  then show ?thesis using number_table by blast
qed

lemma letters:
  "\<not> is_ws CHR ''n''" "\<not> is_ws CHR ''t''" "\<not> is_ws CHR ''f''"
  by code_simp+

lemma ser_start:
  assumes "json_finite v"
  shows "SerializeJSONProperty gap ind v \<noteq> []
   \<and> \<not> is_ws (hd (SerializeJSONProperty gap ind v))
   \<and> hd (SerializeJSONProperty gap ind v) \<noteq> CHR '']''"
proof (cases v)
  case JNull
  then show ?thesis using letters by simp
next
  case (JBool b)
  then show ?thesis using letters by (cases b) simp_all
next
  case (JNumber x)
  then have ok: "number_ok x" using assms by simp
  obtain c s where "Number_toString x = c # s" "c = CHR ''-'' \<or> is_digit c"
    using number_start [OF ok] by blast
  then show ?thesis using JNumber number_char [of c] number_ok_finite [OF ok] by simp
next
  case (JString s)
  then show ?thesis using punct by (simp add: QuoteJSONString_def)
next
  case (JArray vs)
  then show ?thesis using punct by (simp add: Let_def)
next
  case (JObject kvs)
  then show ?thesis using punct by (simp add: Let_def)
qed

lemma join_start: "x \<noteq> [] \<Longrightarrow> join sep (x # xs) \<noteq> [] \<and> hd (join sep (x # xs)) = hd x"
  by (cases xs) simp_all

lemma parse_value_number:
  assumes "c = CHR ''-'' \<or> is_digit c"
  shows "parse_value (Suc m) (c # r) = parse_number (c # r)"
  using number_char [OF assms] by (simp add: skipws_start)

lemma parse_value_string:
  "parse_value (Suc m) (QuoteJSONString s @ rest) = Some (JString s, rest)"
  using punct by (simp add: QuoteJSONString_def skipws_start parse_chars_roundtrip
      del: parse_chars.simps)

lemma parse_value_array:
  assumes "parse_elements m (w0 @ J @ tail) = Some (vs, rest)"
    and "\<And>c. c \<in> set w0 \<Longrightarrow> is_ws c"
    and "J \<noteq> []" "\<not> is_ws (hd J)" "hd J \<noteq> CHR '']''"
  shows "parse_value (Suc m) (CHR ''['' # w0 @ J @ tail) = Some (JArray vs, rest)"
proof -
  obtain d J' where J: "J = d # J'" using assms(3) by (cases J) auto
  have sk: "skipws (w0 @ d # J' @ tail) = d # J' @ tail"
    using assms(2,4) J skipws_then [of w0 d "J' @ tail"] by simp
  have s0: "skipws (CHR ''['' # x) = CHR ''['' # x" for x
    using punct by (simp add: skipws_start)
  show ?thesis using assms(1,5) J by (simp add: s0 sk)
qed

lemma parse_value_object:
  assumes "parse_members m (w0 @ J @ tail) = Some (kvs, rest)"
    and "\<And>c. c \<in> set w0 \<Longrightarrow> is_ws c"
    and "J \<noteq> []" "\<not> is_ws (hd J)" "hd J \<noteq> CHR ''}''"
  shows "parse_value (Suc m) (CHR ''{'' # w0 @ J @ tail) = Some (JObject kvs, rest)"
proof -
  obtain d J' where J: "J = d # J'" using assms(3) by (cases J) auto
  have sk: "skipws (w0 @ d # J' @ tail) = d # J' @ tail"
    using assms(2,4) J skipws_then [of w0 d "J' @ tail"] by simp
  have s0: "skipws (CHR ''{'' # x) = CHR ''{'' # x" for x
    using punct by (simp add: skipws_start)
  show ?thesis using assms(1,5) J by (simp add: s0 sk)
qed

lemma space_ws: "is_ws CHR '' ''" "is_ws CHR 0x0A"
  by code_simp+

lemma ser_array_shape:
  assumes "vs \<noteq> []"
  shows "\<exists>w0 w1. set w0 \<subseteq> insert CHR 0x0A (set ind \<union> set gap) \<and> set w1 \<subseteq> insert CHR 0x0A (set ind)
     \<and> SerializeJSONProperty gap ind (JArray vs)
         = CHR ''['' # w0 @ join (CHR '','' # w0) (map (SerializeJSONProperty gap (ind @ gap)) vs)
             @ w1 @ '']''"
proof (cases "gap = []")
  case True
  show ?thesis
    by (rule exI [of _ "[]"], rule exI [of _ "[]"]) (use assms True in \<open>simp add: Let_def\<close>)
next
  case False
  show ?thesis
    by (rule exI [of _ "CHR 0x0A # ind @ gap"], rule exI [of _ "CHR 0x0A # ind"])
       (use assms False in \<open>auto simp add: Let_def\<close>)
qed

lemma ser_object_shape:
  assumes "kvs \<noteq> []"
  shows "\<exists>w0 w1 sp. set w0 \<subseteq> insert CHR 0x0A (set ind \<union> set gap) \<and> set w1 \<subseteq> insert CHR 0x0A (set ind)
     \<and> set sp \<subseteq> {CHR '' ''}
     \<and> SerializeJSONProperty gap ind (JObject kvs)
         = CHR ''{'' # w0 @ join (CHR '','' # w0)
               (map (\<lambda>(k, v). QuoteJSONString k @ '':'' @ sp @ SerializeJSONProperty gap (ind @ gap) v) kvs)
             @ w1 @ ''}''"
proof (cases "gap = []")
  case True
  show ?thesis
    by (rule exI [of _ "[]"], rule exI [of _ "[]"], rule exI [of _ "[]"])
       (use assms True in \<open>simp add: Let_def\<close>)
next
  case False
  show ?thesis
    by (rule exI [of _ "CHR 0x0A # ind @ gap"], rule exI [of _ "CHR 0x0A # ind"],
        rule exI [of _ "'' ''"])
       (use assms False in \<open>auto simp add: Let_def\<close>)
qed

subsection \<open>Values\<close>

lemma parse_value_ser:
  assumes gap: "set gap \<subseteq> {CHR '' ''}"
  shows "set ind \<subseteq> {CHR '' ''} \<Longrightarrow> numeral_end rest
      \<Longrightarrow> length (SerializeJSONProperty gap ind v) \<le> n
      \<Longrightarrow> json_finite v
      \<Longrightarrow> parse_value n (SerializeJSONProperty gap ind v @ rest) = Some (v, rest)"
proof (induction v arbitrary: ind rest n)
  case JNull
  then obtain m where "n = Suc m" by (cases n) auto
  then show ?case using letters by (simp add: skipws_start)
next
  case (JBool b)
  then obtain m where "n = Suc m" by (cases n) (auto split: if_splits)
  then show ?case using letters by (cases b) (simp_all add: skipws_start)
next
  case (JNumber x)
  have ok: "number_ok x" using JNumber(4) by simp
  have ser: "SerializeJSONProperty gap ind (JNumber x) = Number_toString x"
    using number_ok_finite [OF ok] by simp
  obtain c s where cs: "Number_toString x = c # s" "c = CHR ''-'' \<or> is_digit c"
    using number_start [OF ok] by blast
  obtain m where n: "n = Suc m" using JNumber(3) cs ser by (cases n) auto
  have "parse_value (Suc m) (c # (s @ rest)) = parse_number (c # (s @ rest))"
    using cs(2) by (rule parse_value_number)
  then show ?case using n cs(1) ser parse_number_roundtrip [OF ok JNumber(2)] by simp
next
  case (JString s)
  then obtain m where "n = Suc m" by (cases n) (auto simp add: QuoteJSONString_def)
  note n = this
  then show ?case using parse_value_string [of m s rest] by (simp del: parse_value.simps)
next
  case (JArray vs)
  show ?case
  proof (cases "vs = []")
    case True
    obtain m where "n = Suc m" using JArray(4) True by (cases n) auto
    then show ?thesis using True punct by (simp add: skipws_start)
  next
    case False
    let ?S = "SerializeJSONProperty gap (ind @ gap)"
    obtain w0 w1 where w: "set w0 \<subseteq> insert CHR 0x0A (set ind \<union> set gap)"
        "set w1 \<subseteq> insert CHR 0x0A (set ind)"
      and shape: "SerializeJSONProperty gap ind (JArray vs)
         = CHR ''['' # w0 @ join (CHR '','' # w0) (map ?S vs) @ w1 @ '']''"
      using ser_array_shape [OF False, of ind gap] by blast
    define J where "J = join (CHR '','' # w0) (map ?S vs)"
    have ws0: "\<And>c. c \<in> set w0 \<Longrightarrow> is_ws c" and ws1: "\<And>c. c \<in> set w1 \<Longrightarrow> is_ws c"
      using w gap JArray(2) space_ws by auto
    obtain m where n: "n = Suc m" using JArray(4) shape by (cases n) auto
    have lenJ: "length J < m" using JArray(4) n unfolding shape J_def by simp
    obtain v vs' where vs: "vs = v # vs'" using False by (cases vs) auto
    have fin: "json_finite x" if "x \<in> set vs" for x
      using JArray(5) that by (simp add: list_all_iff)
    have start: "?S x \<noteq> [] \<and> \<not> is_ws (hd (?S x)) \<and> hd (?S x) \<noteq> CHR '']''"
      if "x \<in> set vs" for x
      using ser_start [OF fin [OF that], where gap = gap and ind = "ind @ gap"] .
    have start_v: "?S v \<noteq> [] \<and> \<not> is_ws (hd (?S v)) \<and> hd (?S v) \<noteq> CHR '']''"
      using start [of v] vs by simp
    have Jstart: "J \<noteq> [] \<and> hd J = hd (?S v)"
      unfolding J_def vs using join_start [of "?S v" "CHR '','' # w0" "map ?S vs'"] start_v
      by simp
    have ind': "set (ind @ gap) \<subseteq> {CHR '' ''}" using gap JArray(2) by simp
    have elems: "parse_elements m (J @ w1 @ CHR '']'' # rest) = Some (vs, rest)"
      unfolding J_def
    proof (rule parse_elements_join)
      show "vs \<noteq> []" by (rule False)
      show "length (join (CHR '','' # w0) (map ?S vs)) < m" using lenJ by (simp add: J_def)
      show "\<And>c. c \<in> set w0 \<Longrightarrow> is_ws c" by (rule ws0)
      show "\<And>c. c \<in> set w1 \<Longrightarrow> is_ws c" by (rule ws1)
      show "?S x \<noteq> []" if "x \<in> set vs" for x using start [OF that] by simp
      fix x r k
      assume "x \<in> set vs" "numeral_end r" "length (?S x) \<le> k"
      then show "parse_value k (?S x @ r) = Some (x, r)"
        using JArray.IH [of x "ind @ gap" r k] ind' fin [of x] by simp
    qed
    have "parse_elements m (w0 @ J @ (w1 @ CHR '']'' # rest)) = Some (vs, rest)"
      using elems ws0 by (simp add: parse_elements_skip)
    then have "parse_value (Suc m) (CHR ''['' # w0 @ J @ (w1 @ CHR '']'' # rest))
        = Some (JArray vs, rest)"
      using ws0 Jstart start_v by (intro parse_value_array) simp_all
    then show ?thesis unfolding shape n J_def by simp
  qed
next
  case (JObject kvs)
  show ?case
  proof (cases "kvs = []")
    case True
    obtain m where "n = Suc m" using JObject(4) True by (cases n) auto
    then show ?thesis using True punct by (simp add: skipws_start)
  next
    case False
    let ?S = "SerializeJSONProperty gap (ind @ gap)"
    obtain w0 w1 sp where w: "set w0 \<subseteq> insert CHR 0x0A (set ind \<union> set gap)"
        "set w1 \<subseteq> insert CHR 0x0A (set ind)" "set sp \<subseteq> {CHR '' ''}"
      and shape: "SerializeJSONProperty gap ind (JObject kvs)
         = CHR ''{'' # w0 @ join (CHR '','' # w0)
               (map (\<lambda>(k, v). QuoteJSONString k @ '':'' @ sp @ ?S v) kvs) @ w1 @ ''}''"
      using ser_object_shape [OF False, of ind gap] by blast
    define J where "J = join (CHR '','' # w0) (map (\<lambda>(k, v). QuoteJSONString k @ '':'' @ sp @ ?S v) kvs)"
    have ws0: "\<And>c. c \<in> set w0 \<Longrightarrow> is_ws c" and ws1: "\<And>c. c \<in> set w1 \<Longrightarrow> is_ws c"
      and wsp: "\<And>c. c \<in> set sp \<Longrightarrow> is_ws c"
      using w gap JObject(2) space_ws by auto
    obtain m where n: "n = Suc m" using JObject(4) shape by (cases n) auto
    have lenJ: "length J < m" using JObject(4) n unfolding shape J_def by simp
    obtain k v kvs' where kvs: "kvs = (k, v) # kvs'" using False by (cases kvs) auto
    have Jstart: "J \<noteq> [] \<and> hd J = CHR 0x22"
      unfolding J_def kvs
      using join_start [of "QuoteJSONString k @ '':'' @ sp @ ?S v" "CHR '','' # w0"]
      by (simp add: QuoteJSONString_def)
    have ind': "set (ind @ gap) \<subseteq> {CHR '' ''}" using gap JObject(2) by simp
    have members: "parse_members m (J @ w1 @ CHR ''}'' # rest) = Some (kvs, rest)"
      unfolding J_def
    proof (rule parse_members_join)
      show "kvs \<noteq> []" by (rule False)
      show "length (join (CHR '','' # w0) (map (\<lambda>(k, v). QuoteJSONString k @ '':'' @ sp @ ?S v) kvs)) < m"
        using lenJ by (simp add: J_def)
      show "\<And>c. c \<in> set w0 \<Longrightarrow> is_ws c" by (rule ws0)
      show "\<And>c. c \<in> set w1 \<Longrightarrow> is_ws c" by (rule ws1)
      show "\<And>c. c \<in> set sp \<Longrightarrow> is_ws c" by (rule wsp)
      fix k' x r j
      assume a: "(k', x) \<in> set kvs" "numeral_end r" "length (?S x) \<le> j"
      have "json_finite x" using JObject(5) a(1) by (auto simp add: list_all_iff)
      then show "parse_value j (?S x @ r) = Some (x, r)"
        using a JObject.IH [of "(k', x)" x "ind @ gap" r j] ind' by simp
    qed
    have "parse_members m (w0 @ J @ (w1 @ CHR ''}'' # rest)) = Some (kvs, rest)"
      using members ws0 by (simp add: parse_members_skip)
    then have "parse_value (Suc m) (CHR ''{'' # w0 @ J @ (w1 @ CHR ''}'' # rest))
        = Some (JObject kvs, rest)"
      using ws0 Jstart punct by (intro parse_value_object) simp_all
    then show ?thesis unfolding shape n J_def by simp
  qed
qed

lemma JSON_parse_ser:
  assumes "set gap \<subseteq> {CHR '' ''}" "json_finite v"
  shows "JSON_parse (SerializeJSONProperty gap [] v) = Some v"
proof -
  have "parse_value (Suc (length (SerializeJSONProperty gap [] v)))
          (SerializeJSONProperty gap [] v @ []) = Some (v, [])"
    using assms by (intro parse_value_ser) (simp_all add: numeral_end_def)
  then show ?thesis by (simp add: JSON_parse_def skipws_def)
qed


lemma JSON_parse_stringify: "json_finite v \<Longrightarrow> JSON_parse (JSON_stringify v) = Some v"
  unfolding JSON_stringify_def by (rule JSON_parse_ser) simp_all

section \<open>The body of a contribution\<close>

text \<open>
  Claim C6. When \<^verbatim>\<open>submit_contribution\<close> is called with \<^verbatim>\<open>scene_id: 0\<close>, the body object
  has no \<^verbatim>\<open>scene_id\<close> key: it is the body of the same call without \<^verbatim>\<open>scene_id\<close>, the
  request carries its \<^verbatim>\<open>JSON.stringify\<close>, and that text reads back as this object.
\<close>

theorem scene_id_zero_is_omitted:
  assumes "sc_scene_id args = Some 0"
  shows "''scene_id'' \<notin> fst ` set (submit_contribution_body args)
     \<and> submit_contribution_body args = submit_contribution_body (args\<lparr>sc_scene_id := None\<rparr>)
     \<and> req_body (api_request cfg (tool_path (Submit_contribution args))
                    (tool_options (Submit_contribution args)))
         = Some (JSON_stringify (JObject (submit_contribution_body args)))
     \<and> JSON_parse (JSON_stringify (JObject (submit_contribution_body args)))
         = Some (JObject (submit_contribution_body args))"
proof -
  have "json_finite (JObject (submit_contribution_body args))"
    using assms by (auto simp add: Let_def submit_contribution_body_def split: option.splits)
  then have "JSON_parse (JSON_stringify (JObject (submit_contribution_body args)))
         = Some (JObject (submit_contribution_body args))"
    by (rule JSON_parse_stringify)
  then show ?thesis using assms
    by (auto simp add: Let_def submit_contribution_body_def api_request_def
        submit_contribution_init_def split: option.splits)
qed

theorem scene_id_zero_is_omitted_witness:
  "sc_scene_id \<lparr>sc_slug = ''ada-lovelace'', sc_type = ''quote'', sc_content = ''x'',
         sc_source_url = None, sc_scene_id = Some 0, sc_liberty_note = None\<rparr> = Some 0
   \<and> ''scene_id'' \<notin> fst ` set (submit_contribution_body
        \<lparr>sc_slug = ''ada-lovelace'', sc_type = ''quote'', sc_content = ''x'',
         sc_source_url = None, sc_scene_id = Some 0, sc_liberty_note = None\<rparr>)
   \<and> submit_contribution_body \<lparr>sc_slug = ''ada-lovelace'', sc_type = ''quote'', sc_content = ''x'',
         sc_source_url = None, sc_scene_id = Some 0, sc_liberty_note = None\<rparr>
      = [(''type'', JString ''quote''), (''content'', JString ''x'')]"
  using scene_id_zero_is_omitted
    [of "\<lparr>sc_slug = ''ada-lovelace'', sc_type = ''quote'', sc_content = ''x'',
         sc_source_url = None, sc_scene_id = Some 0, sc_liberty_note = None\<rparr>"]
  by (simp add: submit_contribution_body_def Let_def)

text \<open>
  Claim C7. The body object always starts with the keys \<^verbatim>\<open>type\<close> and \<^verbatim>\<open>content\<close>, bound to
  the supplied values; \<^verbatim>\<open>source_url\<close>, \<^verbatim>\<open>scene_id\<close> and \<^verbatim>\<open>liberty_note\<close> follow exactly when
  they were supplied non-empty or non-zero. With the three left out, the body is the
  two required pairs and the request carries \<^verbatim>\<open>{"type":...,"content":...}\<close>.
\<close>

theorem required_only_body:
  "map fst (submit_contribution_body args) =
      [''type'', ''content'']
      @ (if truthy_string (sc_source_url args) then [''source_url''] else [])
      @ (if truthy_number (sc_scene_id args) then [''scene_id''] else [])
      @ (if truthy_string (sc_liberty_note args) then [''liberty_note''] else [])
   \<and> map_of (submit_contribution_body args) ''type'' = Some (JString (sc_type args))
   \<and> map_of (submit_contribution_body args) ''content'' = Some (JString (sc_content args))
   \<and> (sc_source_url args = None \<and> sc_scene_id args = None \<and> sc_liberty_note args = None \<longrightarrow>
        submit_contribution_body args
          = [(''type'', JString (sc_type args)), (''content'', JString (sc_content args))]
        \<and> req_body (api_request cfg (tool_path (Submit_contribution args))
                    (tool_options (Submit_contribution args)))
           = Some (''{'' @ QuoteJSONString ''type'' @ '':'' @ QuoteJSONString (sc_type args) @ '',''
                   @ QuoteJSONString ''content'' @ '':'' @ QuoteJSONString (sc_content args) @ ''}''))"
  by (auto simp add: Let_def submit_contribution_body_def truthy_string_def truthy_number_def
        api_request_def submit_contribution_init_def JSON_stringify_def
       split: option.splits)

theorem required_only_body_witness:
  "submit_contribution_body \<lparr>sc_slug = ''ada-lovelace'', sc_type = ''quote'', sc_content = ''x'',
         sc_source_url = None, sc_scene_id = None, sc_liberty_note = None\<rparr>
      = [(''type'', JString ''quote''), (''content'', JString ''x'')]
   \<and> req_body (api_request \<lparr>AGENT_NAME = ''mcp-agent'', MODEL_NAME = [], USER_TOKEN = []\<rparr> (tool_path (Submit_contribution
        \<lparr>sc_slug = ''ada-lovelace'', sc_type = ''quote'', sc_content = ''x'',
         sc_source_url = None, sc_scene_id = None, sc_liberty_note = None\<rparr>))
       (tool_options (Submit_contribution
        \<lparr>sc_slug = ''ada-lovelace'', sc_type = ''quote'', sc_content = ''x'',
         sc_source_url = None, sc_scene_id = None, sc_liberty_note = None\<rparr>)))
      = Some (''{'' @ [CHR 0x22] @ ''type'' @ [CHR 0x22] @ '':'' @ [CHR 0x22] @ ''quote'' @ [CHR 0x22]
              @ '','' @ [CHR 0x22] @ ''content'' @ [CHR 0x22] @ '':'' @ [CHR 0x22] @ ''x''
              @ [CHR 0x22] @ ''}'')"
  using required_only_body
    [of "\<lparr>sc_slug = ''ada-lovelace'', sc_type = ''quote'', sc_content = ''x'',
         sc_source_url = None, sc_scene_id = None, sc_liberty_note = None\<rparr>"
      "\<lparr>AGENT_NAME = ''mcp-agent'', MODEL_NAME = [], USER_TOKEN = []\<rparr>"]
  by (simp add: QuoteJSONString_def quote_char_def)

section \<open>Successful calls\<close>









end
